theory Spec2Isabelle
  imports Complex_Main "HOL-Library.Log_Nat" "HOL-Library.Monad_Syntax"
begin

section \<open>NumPy float64 scalars\<close>

text \<open>
  Every metric of \<open>calculate_accuracy\<close> is a NumPy \<open>float64\<close> scalar. A finite
  scalar is modelled by the rational number it denotes; the two infinities and
  not-a-number are separate constructors. NumPy's scalar arithmetic follows IEEE 754
  binary64 with round-to-nearest, ties-to-even, and under the default error state
  (the notebooks only silence warnings) a division by zero yields \<open>inf\<close> or \<open>nan\<close>
  and a \<open>RuntimeWarning\<close>, never an exception.

  All finite operands that occur in \<open>calculate_accuracy\<close> are non-negative, so the
  negative zero of IEEE 754 is never produced and zero is modelled as the one value
  \<open>Fin 0\<close>.
\<close>

datatype f64 = Fin rat | PInf | NInf | NaN

text \<open>Rounding a rational to the nearest integer, ties to the even neighbour.\<close>

definition round_half_even :: "rat \<Rightarrow> int" where
  "round_half_even x =
     (let f = \<lfloor>x\<rfloor>; d = x - of_int f
      in if d < 1 / 2 then f
         else if 1 / 2 < d then f + 1
         else if even f then f else f + 1)"

text \<open>The binary exponent \<open>\<lfloor>log\<^sub>2 q\<rfloor>\<close> of a positive rational, from the bit lengths of
  its numerator and denominator.\<close>

definition ilog2 :: "rat \<Rightarrow> int" where
  "ilog2 q =
     (let (a, b) = quotient_of q; d = bitlen a - bitlen b
      in if 2 powi d \<le> q then d else d - 1)"

text \<open>The exponent of the unit in the last place of binary64 at \<open>q\<close>: 53 significant
  bits, and the fixed spacing \<open>2\<^sup>-\<^sup>1\<^sup>0\<^sup>7\<^sup>4\<close> in the subnormal range below \<open>2\<^sup>-\<^sup>1\<^sup>0\<^sup>2\<^sup>2\<close>.\<close>

definition ulp_exp :: "rat \<Rightarrow> int" where
  "ulp_exp q = max (ilog2 \<bar>q\<bar>) (- 1022) - 52"

definition round64 :: "rat \<Rightarrow> rat" where
  "round64 q =
     (if q = 0 then 0
      else of_int (round_half_even (q / 2 powi ulp_exp q)) * 2 powi ulp_exp q)"

text \<open>The float64 result of an exact value: rounded, and an infinity on overflow, that
  is when the rounded magnitude reaches \<open>2\<^sup>1\<^sup>0\<^sup>2\<^sup>4\<close>.\<close>

definition rnd :: "rat \<Rightarrow> f64" where
  "rnd q =
     (let r = round64 q
      in if r = 0 then Fin 0
         else if 1024 \<le> ilog2 \<bar>r\<bar> then (if 0 < r then PInf else NInf)
         else Fin r)"

fun is_neg :: "f64 \<Rightarrow> bool" where
  "is_neg (Fin a) = (a < 0)"
| "is_neg NInf = True"
| "is_neg PInf = False"
| "is_neg NaN = False"

fun fneg :: "f64 \<Rightarrow> f64" where
  "fneg (Fin a) = Fin (- a)"
| "fneg PInf = NInf"
| "fneg NInf = PInf"
| "fneg NaN = NaN"

fun fadd :: "f64 \<Rightarrow> f64 \<Rightarrow> f64" where
  "fadd (Fin a) (Fin b) = rnd (a + b)"
| "fadd NaN y = NaN"
| "fadd x NaN = NaN"
| "fadd PInf NInf = NaN"
| "fadd NInf PInf = NaN"
| "fadd PInf y = PInf"
| "fadd NInf y = NInf"
| "fadd (Fin a) y = y"

definition fsub :: "f64 \<Rightarrow> f64 \<Rightarrow> f64" where
  "fsub x y = fadd x (fneg y)"

fun fmul :: "f64 \<Rightarrow> f64 \<Rightarrow> f64" where
  "fmul (Fin a) (Fin b) = rnd (a * b)"
| "fmul NaN y = NaN"
| "fmul x NaN = NaN"
| "fmul x y =
     (if x = Fin 0 \<or> y = Fin 0 then NaN
      else if is_neg x = is_neg y then PInf else NInf)"

fun fdiv :: "f64 \<Rightarrow> f64 \<Rightarrow> f64" where
  "fdiv (Fin a) (Fin b) =
     (if b = 0 then (if a = 0 then NaN else if 0 < a then PInf else NInf)
      else rnd (a / b))"
| "fdiv NaN y = NaN"
| "fdiv x NaN = NaN"
| "fdiv (Fin a) y = Fin 0"
| "fdiv x (Fin b) = (if is_neg x = (b < 0) then PInf else NInf)"
| "fdiv x y = NaN"

fun is_nonfinite :: "f64 \<Rightarrow> bool" where
  "is_nonfinite (Fin a) = False"
| "is_nonfinite x = True"

text \<open>Conversion of a NumPy \<open>int64\<close> (or a Python \<open>int\<close>) operand to \<open>float64\<close>.\<close>

definition f64_of_int :: "int \<Rightarrow> f64" where
  "f64_of_int k = rnd (of_int k)"

text \<open>\<open>a / b\<close> on two \<open>int64\<close> scalars: NumPy's \<open>true_divide\<close> converts both to
  \<open>float64\<close> and divides.\<close>

definition true_divide :: "int \<Rightarrow> int \<Rightarrow> f64" where
  "true_divide a b = fdiv (f64_of_int a) (f64_of_int b)"


section \<open>NumPy arrays of labels\<close>

text \<open>
  A one-dimensional array is a list. \<open>np.sum\<close> of a boolean array counts its \<open>True\<close>
  entries in an \<open>int64\<close>; an array has fewer than \<open>2\<^sup>6\<^sup>3\<close> entries, so the count is
  modelled as an unbounded integer. \<open>np.mean\<close> of a boolean array adds the entries up
  in \<open>float64\<close> and divides by the number of entries; the sum of zeros and ones is
  exact below \<open>2\<^sup>5\<^sup>3\<close> entries and is modelled as the converted count. On an empty
  array the mean is \<open>0.0 / 0\<close>, which is \<open>nan\<close>.
\<close>

definition np_sum :: "bool list \<Rightarrow> int" where
  "np_sum bs = int (length (filter (\<lambda>b. b) bs))"

definition np_mean :: "bool list \<Rightarrow> f64" where
  "np_mean bs = fdiv (f64_of_int (np_sum bs)) (f64_of_int (int (length bs)))"

text \<open>\<open>array == scalar\<close>: element-wise comparison with an integer. On a boolean array
  \<open>True\<close> compares equal to 1 and \<open>False\<close> to 0.\<close>

definition eq_scalar :: "int list \<Rightarrow> int \<Rightarrow> bool list" where
  "eq_scalar xs v = map (\<lambda>x. x = v) xs"

definition bool_eq_scalar :: "bool list \<Rightarrow> int \<Rightarrow> bool list" where
  "bool_eq_scalar bs v = map (\<lambda>b. (if b then 1 else 0) = v) bs"

text \<open>A binary element-wise operation on two one-dimensional arrays. Equal shapes are
  combined position by position, an array of one element is broadcast along the
  other, and any other pair of shapes raises \<open>ValueError\<close> (the result \<open>None\<close>).\<close>

definition broadcast2 :: "('a \<Rightarrow> 'b \<Rightarrow> 'c) \<Rightarrow> 'a list \<Rightarrow> 'b list \<Rightarrow> 'c list option" where
  "broadcast2 f xs ys =
     (if length xs = length ys then Some (map2 f xs ys)
      else if length xs = 1 then Some (map (f (hd xs)) ys)
      else if length ys = 1 then Some (map (\<lambda>x. f x (hd ys)) xs)
      else None)"


section \<open>The accuracy calculator\<close>

text \<open>The dictionary returned by \<open>calculate_accuracy\<close> always has the same eighteen
  keys, each assigned once; it is modelled as a record with one field per key.\<close>

record results =
  observed_positive_rate :: f64
  observed_negative_rate :: f64
  predicted_positive_rate :: f64
  predicted_negative_rate :: f64
  accuracy :: f64
  precision :: f64
  recall :: f64
  f1 :: f64
  sensitivity :: f64
  specificity :: f64
  positive_likelihood :: f64
  negative_likelihood :: f64
  false_positive_rate :: f64
  false_negative_rate :: f64
  true_positive_rate :: f64
  true_negative_rate :: f64
  positive_predictive_value :: f64
  negative_predictive_value :: f64

text \<open>\<open>calculate_accuracy observed predicted\<close>, statement by statement. The result is
  \<open>None\<close> where the source raises (\<open>ValueError\<close> of an element-wise operation on
  arrays whose shapes do not broadcast).\<close>

definition calculate_accuracy :: "int list \<Rightarrow> int list \<Rightarrow> results option" where
  "calculate_accuracy observed predicted = do {
     let observed_positives = eq_scalar observed 1;
     let observed_negatives = eq_scalar observed 0;
     let predicted_positives = eq_scalar predicted 1;
     let predicted_negatives = eq_scalar predicted 0;
     true_positives \<leftarrow> broadcast2 (\<and>)
        (bool_eq_scalar predicted_positives 1) (bool_eq_scalar observed_positives 1);
     false_positives \<leftarrow> broadcast2 (\<and>)
        (bool_eq_scalar predicted_positives 1) (bool_eq_scalar observed_positives 0);
     true_negatives \<leftarrow> broadcast2 (\<and>)
        (bool_eq_scalar predicted_negatives 1) (bool_eq_scalar observed_negatives 1);
     agreement \<leftarrow> broadcast2 (=) predicted observed;
     let accuracy = np_mean agreement;
     let precision = true_divide (np_sum true_positives)
                       (np_sum true_positives + np_sum false_positives);
     let recall = true_divide (np_sum true_positives) (np_sum observed_positives);
     let sensitivity = recall;
     let f1 = fmul (Fin 2) (fdiv (fmul precision recall) (fadd precision recall));
     let specificity = true_divide (np_sum true_negatives) (np_sum observed_negatives);
     let positive_likelihood = fdiv sensitivity (fsub (Fin 1) specificity);
     let negative_likelihood = fdiv (fsub (Fin 1) sensitivity) specificity;
     let false_positive_rate = fsub (Fin 1) specificity;
     let false_negative_rate = fsub (Fin 1) sensitivity;
     let true_positive_rate = sensitivity;
     let true_negative_rate = specificity;
     let positive_predictive_value =
           true_divide (np_sum true_positives) (np_sum observed_positives);
     let negative_predictive_value =
           true_divide (np_sum true_negatives) (np_sum observed_positives);
     Some \<lparr>
       observed_positive_rate = np_mean observed_positives,
       observed_negative_rate = np_mean observed_negatives,
       predicted_positive_rate = np_mean predicted_positives,
       predicted_negative_rate = np_mean predicted_negatives,
       accuracy = accuracy,
       precision = precision,
       recall = recall,
       f1 = f1,
       sensitivity = sensitivity,
       specificity = specificity,
       positive_likelihood = positive_likelihood,
       negative_likelihood = negative_likelihood,
       false_positive_rate = false_positive_rate,
       false_negative_rate = false_negative_rate,
       true_positive_rate = true_positive_rate,
       true_negative_rate = true_negative_rate,
       positive_predictive_value = positive_predictive_value,
       negative_predictive_value = negative_predictive_value
     \<rparr>
   }"


section \<open>Confusion-matrix counts of the specification\<close>

text \<open>The number of positions where the observed label is \<open>ov\<close> and the predicted
  label is \<open>pv\<close>, counted over the pairs of the two sequences.\<close>

definition pair_count :: "int list \<Rightarrow> int list \<Rightarrow> int \<Rightarrow> int \<Rightarrow> int" where
  "pair_count observed predicted ov pv =
     int (length (filter (\<lambda>(x, y). x = ov \<and> y = pv) (zip observed predicted)))"

definition TP :: "int list \<Rightarrow> int list \<Rightarrow> int" where
  "TP observed predicted = pair_count observed predicted 1 1"

definition FP :: "int list \<Rightarrow> int list \<Rightarrow> int" where
  "FP observed predicted = pair_count observed predicted 0 1"

definition TN :: "int list \<Rightarrow> int list \<Rightarrow> int" where
  "TN observed predicted = pair_count observed predicted 0 0"

definition FN :: "int list \<Rightarrow> int list \<Rightarrow> int" where
  "FN observed predicted = pair_count observed predicted 1 0"

text \<open>A sequence of binary labels.\<close>

definition binary :: "int list \<Rightarrow> bool" where
  "binary xs = list_all (\<lambda>x. x = 0 \<or> x = 1) xs"


text \<open>The number of entries of a sequence that carry the label \<open>v\<close>.\<close>

definition count_label :: "int list \<Rightarrow> int \<Rightarrow> int" where
  "count_label xs v = int (length (filter (\<lambda>x. x = v) xs))"

text \<open>The element-wise logical complement of a label sequence: every 0 becomes 1 and
  every other label becomes 0.\<close>

definition flip_labels :: "int list \<Rightarrow> int list" where
  "flip_labels xs = map (\<lambda>x. if x = 0 then 1 else 0) xs"

text \<open>A finite scalar in the closed unit interval.\<close>

fun in_unit :: "f64 \<Rightarrow> bool" where
  "in_unit (Fin a) = (0 \<le> a \<and> a \<le> 1)"
| "in_unit x = False"


section \<open>Array and counting lemmas\<close>

subsection \<open>Shapes and unfolding of the calculator\<close>

lemma length_eq_scalar [simp]: "length (eq_scalar xs v) = length xs"
  by (simp add: eq_scalar_def)

lemma length_bool_eq_scalar [simp]: "length (bool_eq_scalar bs v) = length bs"
  by (simp add: bool_eq_scalar_def)

lemma length_flip_labels [simp]: "length (flip_labels s) = length s"
  by (simp add: flip_labels_def)

lemma length_bound:
  assumes "length (xs :: 'a list) < 2 ^ 53"
  shows "int (length xs) \<le> 2 ^ 53"
  using assms by (simp add: less_imp_le flip: of_nat_less_numeral_power_cancel_iff)

lemma np_mean_true_divide: "np_mean bs = true_divide (np_sum bs) (int (length bs))"
  by (simp add: np_mean_def true_divide_def)

lemma calc_fields:
  assumes "length observed = length predicted"
  shows "\<exists>r. calculate_accuracy observed predicted = Some r \<and>
    observed_positive_rate r = np_mean (eq_scalar observed 1) \<and>
    observed_negative_rate r = np_mean (eq_scalar observed 0) \<and>
    predicted_positive_rate r = np_mean (eq_scalar predicted 1) \<and>
    predicted_negative_rate r = np_mean (eq_scalar predicted 0) \<and>
    accuracy r = np_mean (map2 (=) predicted observed) \<and>
    precision r = true_divide
       (np_sum (map2 (\<and>) (bool_eq_scalar (eq_scalar predicted 1) 1)
                          (bool_eq_scalar (eq_scalar observed 1) 1)))
       (np_sum (map2 (\<and>) (bool_eq_scalar (eq_scalar predicted 1) 1)
                          (bool_eq_scalar (eq_scalar observed 1) 1))
        + np_sum (map2 (\<and>) (bool_eq_scalar (eq_scalar predicted 1) 1)
                            (bool_eq_scalar (eq_scalar observed 1) 0))) \<and>
    recall r = true_divide
       (np_sum (map2 (\<and>) (bool_eq_scalar (eq_scalar predicted 1) 1)
                          (bool_eq_scalar (eq_scalar observed 1) 1)))
       (np_sum (eq_scalar observed 1)) \<and>
    specificity r = true_divide
       (np_sum (map2 (\<and>) (bool_eq_scalar (eq_scalar predicted 0) 1)
                          (bool_eq_scalar (eq_scalar observed 0) 1)))
       (np_sum (eq_scalar observed 0)) \<and>
    negative_predictive_value r = true_divide
       (np_sum (map2 (\<and>) (bool_eq_scalar (eq_scalar predicted 0) 1)
                          (bool_eq_scalar (eq_scalar observed 0) 1)))
       (np_sum (eq_scalar observed 1)) \<and>
    f1 r = fmul (Fin 2) (fdiv (fmul (precision r) (recall r)) (fadd (precision r) (recall r))) \<and>
    sensitivity r = recall r \<and>
    positive_likelihood r = fdiv (recall r) (fsub (Fin 1) (specificity r)) \<and>
    negative_likelihood r = fdiv (fsub (Fin 1) (recall r)) (specificity r) \<and>
    false_positive_rate r = fsub (Fin 1) (specificity r) \<and>
    false_negative_rate r = fsub (Fin 1) (recall r) \<and>
    true_positive_rate r = recall r \<and>
    true_negative_rate r = specificity r \<and>
    positive_predictive_value r = recall r"
  using assms by (simp add: calculate_accuracy_def broadcast2_def Let_def)

subsection \<open>Counts of the boolean masks\<close>

lemma sum_true_positives:
  "length observed = length predicted \<Longrightarrow>
   np_sum (map2 (\<and>) (bool_eq_scalar (eq_scalar predicted 1) 1)
                      (bool_eq_scalar (eq_scalar observed 1) 1)) = TP observed predicted"
  by (induct observed predicted rule: list_induct2)
     (simp_all add: np_sum_def bool_eq_scalar_def eq_scalar_def TP_def pair_count_def)

lemma sum_true_negatives:
  "length observed = length predicted \<Longrightarrow>
   np_sum (map2 (\<and>) (bool_eq_scalar (eq_scalar predicted 0) 1)
                      (bool_eq_scalar (eq_scalar observed 0) 1)) = TN observed predicted"
  by (induct observed predicted rule: list_induct2)
     (simp_all add: np_sum_def bool_eq_scalar_def eq_scalar_def TN_def pair_count_def)

lemma sum_false_positives:
  "length observed = length predicted \<Longrightarrow> binary observed \<Longrightarrow>
   np_sum (map2 (\<and>) (bool_eq_scalar (eq_scalar predicted 1) 1)
                      (bool_eq_scalar (eq_scalar observed 1) 0)) = FP observed predicted"
  by (induct observed predicted rule: list_induct2)
     (auto simp add: np_sum_def bool_eq_scalar_def eq_scalar_def FP_def pair_count_def binary_def)

lemma sum_observed_positives:
  "length observed = length predicted \<Longrightarrow> binary predicted \<Longrightarrow>
   np_sum (eq_scalar observed 1) = TP observed predicted + FN observed predicted"
  by (induct observed predicted rule: list_induct2)
     (auto simp add: np_sum_def eq_scalar_def TP_def FN_def pair_count_def binary_def)

lemma sum_observed_negatives:
  "length observed = length predicted \<Longrightarrow> binary predicted \<Longrightarrow>
   np_sum (eq_scalar observed 0) = TN observed predicted + FP observed predicted"
  by (induct observed predicted rule: list_induct2)
     (auto simp add: np_sum_def eq_scalar_def TN_def FP_def pair_count_def binary_def)

lemma sum_agreement:
  "length observed = length predicted \<Longrightarrow> binary observed \<Longrightarrow> binary predicted \<Longrightarrow>
   np_sum (map2 (=) predicted observed) = TP observed predicted + TN observed predicted"
  by (induct observed predicted rule: list_induct2)
     (auto simp add: np_sum_def TP_def TN_def pair_count_def binary_def)

lemma length_counts:
  "length observed = length predicted \<Longrightarrow> binary observed \<Longrightarrow> binary predicted \<Longrightarrow>
   int (length observed) = TP observed predicted + FP observed predicted
      + TN observed predicted + FN observed predicted"
  by (induct observed predicted rule: list_induct2)
     (auto simp add: TP_def TN_def FP_def FN_def pair_count_def binary_def)

lemma sum_eq_scalar: "np_sum (eq_scalar xs v) = count_label xs v"
  by (induct xs) (simp_all add: np_sum_def eq_scalar_def count_label_def)

lemma counts_nonneg:
  "0 \<le> TP observed predicted" "0 \<le> FP observed predicted"
  "0 \<le> TN observed predicted" "0 \<le> FN observed predicted"
  by (simp_all add: TP_def FP_def TN_def FN_def pair_count_def)

lemma count_label_nonneg: "0 \<le> count_label xs v"
  by (simp add: count_label_def)

lemma count_label_le: "count_label xs v \<le> int (length xs)"
  by (simp add: count_label_def)

lemma count_label_binary:
  "binary xs \<Longrightarrow> count_label xs 0 + count_label xs 1 = int (length xs)"
  by (induct xs) (auto simp add: binary_def count_label_def)

lemma observed_positive_count:
  assumes "length observed = length predicted" "binary predicted"
  shows "count_label observed 1 = TP observed predicted + FN observed predicted"
    and "count_label observed 0 = TN observed predicted + FP observed predicted"
  using sum_observed_positives [OF assms] sum_observed_negatives [OF assms]
  by (simp_all add: sum_eq_scalar)

lemma predicted_positive_count:
  assumes "length observed = length predicted" "binary observed"
  shows "count_label predicted 1 = TP observed predicted + FP observed predicted"
  using assms
  by (induct observed predicted rule: list_induct2)
     (auto simp add: count_label_def TP_def FP_def pair_count_def binary_def)

lemma all_negative_counts:
  assumes "length observed = length predicted" "list_all (\<lambda>x. x = 0) observed"
  shows "TP observed predicted = 0" "FN observed predicted = 0"
    "FP observed predicted = count_label predicted 1"
    "TN observed predicted = count_label predicted 0"
  using assms
  by (induct observed predicted rule: list_induct2)
     (simp_all add: TP_def FN_def FP_def TN_def pair_count_def count_label_def)

lemma sum_self: "np_sum (map2 (=) s s) = int (length s)"
  by (induct s) (simp_all add: np_sum_def)

lemma flip_disagrees: "map2 (=) (flip_labels s) s = map (\<lambda>x. False) s"
  by (induct s) (simp_all add: flip_labels_def)

lemma sum_flip: "np_sum (map2 (=) (flip_labels s) s) = 0"
  unfolding flip_disagrees by (induct s) (simp_all add: np_sum_def)

subsection \<open>The calculator in terms of the counts\<close>

lemma calc_counts:
  assumes "length observed = length predicted" "binary observed" "binary predicted"
  shows "\<exists>r. calculate_accuracy observed predicted = Some r \<and>
    accuracy r = true_divide (TP observed predicted + TN observed predicted)
        (TP observed predicted + FP observed predicted
          + TN observed predicted + FN observed predicted) \<and>
    precision r = true_divide (TP observed predicted)
        (TP observed predicted + FP observed predicted) \<and>
    recall r = true_divide (TP observed predicted)
        (TP observed predicted + FN observed predicted) \<and>
    specificity r = true_divide (TN observed predicted)
        (TN observed predicted + FP observed predicted) \<and>
    negative_predictive_value r = true_divide (TN observed predicted)
        (TP observed predicted + FN observed predicted) \<and>
    observed_positive_rate r = true_divide (count_label observed 1) (int (length observed)) \<and>
    observed_negative_rate r = true_divide (count_label observed 0) (int (length observed)) \<and>
    f1 r = fmul (Fin 2) (fdiv (fmul (precision r) (recall r)) (fadd (precision r) (recall r))) \<and>
    sensitivity r = recall r \<and>
    positive_likelihood r = fdiv (recall r) (fsub (Fin 1) (specificity r)) \<and>
    negative_likelihood r = fdiv (fsub (Fin 1) (recall r)) (specificity r) \<and>
    false_positive_rate r = fsub (Fin 1) (specificity r) \<and>
    false_negative_rate r = fsub (Fin 1) (recall r) \<and>
    true_positive_rate r = recall r \<and>
    true_negative_rate r = specificity r \<and>
    positive_predictive_value r = recall r"
proof -
  from calc_fields [OF assms(1)] obtain r where r:
    "calculate_accuracy observed predicted = Some r"
    "observed_positive_rate r = np_mean (eq_scalar observed 1)"
    "observed_negative_rate r = np_mean (eq_scalar observed 0)"
    "accuracy r = np_mean (map2 (=) predicted observed)"
    "precision r = true_divide
       (np_sum (map2 (\<and>) (bool_eq_scalar (eq_scalar predicted 1) 1)
                          (bool_eq_scalar (eq_scalar observed 1) 1)))
       (np_sum (map2 (\<and>) (bool_eq_scalar (eq_scalar predicted 1) 1)
                          (bool_eq_scalar (eq_scalar observed 1) 1))
        + np_sum (map2 (\<and>) (bool_eq_scalar (eq_scalar predicted 1) 1)
                            (bool_eq_scalar (eq_scalar observed 1) 0)))"
    "recall r = true_divide
       (np_sum (map2 (\<and>) (bool_eq_scalar (eq_scalar predicted 1) 1)
                          (bool_eq_scalar (eq_scalar observed 1) 1)))
       (np_sum (eq_scalar observed 1))"
    "specificity r = true_divide
       (np_sum (map2 (\<and>) (bool_eq_scalar (eq_scalar predicted 0) 1)
                          (bool_eq_scalar (eq_scalar observed 0) 1)))
       (np_sum (eq_scalar observed 0))"
    "negative_predictive_value r = true_divide
       (np_sum (map2 (\<and>) (bool_eq_scalar (eq_scalar predicted 0) 1)
                          (bool_eq_scalar (eq_scalar observed 0) 1)))
       (np_sum (eq_scalar observed 1))"
    "f1 r = fmul (Fin 2) (fdiv (fmul (precision r) (recall r)) (fadd (precision r) (recall r)))"
    "sensitivity r = recall r"
    "positive_likelihood r = fdiv (recall r) (fsub (Fin 1) (specificity r))"
    "negative_likelihood r = fdiv (fsub (Fin 1) (recall r)) (specificity r)"
    "false_positive_rate r = fsub (Fin 1) (specificity r)"
    "false_negative_rate r = fsub (Fin 1) (recall r)"
    "true_positive_rate r = recall r"
    "true_negative_rate r = specificity r"
    "positive_predictive_value r = recall r"
    by blast
  note sums = sum_true_positives [OF assms(1)] sum_true_negatives [OF assms(1)]
    sum_false_positives [OF assms(1,2)] sum_observed_positives [OF assms(1,3)]
    sum_observed_negatives [OF assms(1,3)] sum_agreement [OF assms]
  have len: "int (length (map2 (=) predicted observed)) =
      TP observed predicted + FP observed predicted
        + TN observed predicted + FN observed predicted"
    using length_counts [OF assms] assms(1) by simp
  have "accuracy r = true_divide (TP observed predicted + TN observed predicted)
        (TP observed predicted + FP observed predicted
          + TN observed predicted + FN observed predicted)"
    by (simp only: r(4) np_mean_true_divide sums len)
  moreover have "precision r = true_divide (TP observed predicted)
        (TP observed predicted + FP observed predicted)"
    by (simp only: r(5) sums)
  moreover have "recall r = true_divide (TP observed predicted)
        (TP observed predicted + FN observed predicted)"
    by (simp only: r(6) sums)
  moreover have "specificity r = true_divide (TN observed predicted)
        (TN observed predicted + FP observed predicted)"
    by (simp only: r(7) sums)
  moreover have "negative_predictive_value r = true_divide (TN observed predicted)
        (TP observed predicted + FN observed predicted)"
    by (simp only: r(8) sums)
  moreover have "observed_positive_rate r
      = true_divide (count_label observed 1) (int (length observed))"
    by (simp only: r(2) np_mean_true_divide sum_eq_scalar length_eq_scalar)
  moreover have "observed_negative_rate r
      = true_divide (count_label observed 0) (int (length observed))"
    by (simp only: r(3) np_mean_true_divide sum_eq_scalar length_eq_scalar)
  ultimately show ?thesis using r(1) r(9-17) by blast
qed

lemma calc_fields_TP:
  assumes "length observed = length predicted"
  shows "\<exists>r. calculate_accuracy observed predicted = Some r \<and>
    recall r = true_divide (TP observed predicted) (count_label observed 1) \<and>
    positive_predictive_value r = recall r \<and>
    negative_predictive_value r = true_divide (TN observed predicted) (count_label observed 1) \<and>
    accuracy r = np_mean (map2 (=) predicted observed)"
proof -
  from calc_fields [OF assms] obtain r where r:
    "calculate_accuracy observed predicted = Some r"
    "accuracy r = np_mean (map2 (=) predicted observed)"
    "recall r = true_divide
       (np_sum (map2 (\<and>) (bool_eq_scalar (eq_scalar predicted 1) 1)
                          (bool_eq_scalar (eq_scalar observed 1) 1)))
       (np_sum (eq_scalar observed 1))"
    "negative_predictive_value r = true_divide
       (np_sum (map2 (\<and>) (bool_eq_scalar (eq_scalar predicted 0) 1)
                          (bool_eq_scalar (eq_scalar observed 0) 1)))
       (np_sum (eq_scalar observed 1))"
    "positive_predictive_value r = recall r"
    by blast
  have "recall r = true_divide (TP observed predicted) (count_label observed 1)"
    by (simp only: r(3) sum_true_positives [OF assms] sum_eq_scalar)
  moreover have "negative_predictive_value r
      = true_divide (TN observed predicted) (count_label observed 1)"
    by (simp only: r(4) sum_true_negatives [OF assms] sum_eq_scalar)
  ultimately show ?thesis using r(1,2,5) by blast
qed

section \<open>Properties of float64 rounding\<close>

subsection \<open>Rounding to an integer\<close>

lemma rhe_of_int [simp]: "round_half_even (of_int m) = m"
  by (simp add: round_half_even_def)

lemma rhe_cases:
  "round_half_even x = \<lfloor>x\<rfloor> \<or> round_half_even x = \<lfloor>x\<rfloor> + 1"
  by (simp add: round_half_even_def Let_def)

lemma rhe_floor_le: "\<lfloor>x\<rfloor> \<le> round_half_even x"
  using rhe_cases [of x] by linarith

lemma rhe_le_ceiling: "round_half_even x \<le> \<lceil>x\<rceil>"
proof (cases "x = of_int \<lfloor>x\<rfloor>")
  case True
  then have "round_half_even x = \<lfloor>x\<rfloor>" by (metis rhe_of_int)
  then show ?thesis by linarith
next
  case False
  then have "\<lceil>x\<rceil> = \<lfloor>x\<rfloor> + 1" by (metis ceiling_altdef)
  then show ?thesis using rhe_cases [of x] by linarith
qed

lemma rhe_err: "\<bar>of_int (round_half_even x) - x\<bar> \<le> 1 / 2"
proof -
  have "of_int \<lfloor>x\<rfloor> \<le> x" "x < of_int \<lfloor>x\<rfloor> + 1" by linarith+
  then show ?thesis
    by (auto simp add: round_half_even_def Let_def abs_le_iff)
qed

lemma rhe_mono:
  assumes "x \<le> y"
  shows "round_half_even x \<le> round_half_even y"
proof (cases "\<lfloor>x\<rfloor> = \<lfloor>y\<rfloor>")
  case True
  then show ?thesis using assms
    by (auto simp add: round_half_even_def Let_def)
next
  case False
  then have "\<lfloor>x\<rfloor> + 1 \<le> \<lfloor>y\<rfloor>" using floor_mono [OF assms] by linarith
  then show ?thesis using rhe_cases [of x] rhe_floor_le [of y] by linarith
qed

lemma rhe_nonneg: "0 \<le> x \<Longrightarrow> 0 \<le> round_half_even x"
  using rhe_mono [of 0 x] rhe_of_int [of 0] by simp

subsection \<open>Powers of two and the binary exponent\<close>

lemma p2_pos [simp]: "0 < (2::rat) powi e"
  by simp

lemma p2_le_iff: "(2::rat) powi m \<le> 2 powi n \<longleftrightarrow> m \<le> n"
proof
  assume le: "(2::rat) powi m \<le> 2 powi n"
  show "m \<le> n"
  proof (rule ccontr)
    assume "\<not> m \<le> n"
    then have "n < m" by simp
    then have "(2::rat) powi n < 2 powi m" by (rule power_int_strict_increasing) simp
    with le show False by simp
  qed
next
  assume "m \<le> n"
  then show "(2::rat) powi m \<le> 2 powi n" by (rule power_int_increasing) simp
qed

lemma p2_less_iff: "(2::rat) powi m < 2 powi n \<longleftrightarrow> m < n"
  using p2_le_iff [of n m] by (simp add: not_le [symmetric])

lemma p2_add: "(2::rat) powi (m + n) = 2 powi m * 2 powi n"
  by (rule power_int_add) simp

lemma p2_diff: "(2::rat) powi (m - n) = 2 powi m / 2 powi n"
  by (rule power_int_diff) simp

lemma ilog2_bounds:
  assumes "0 < q"
  shows "2 powi ilog2 q \<le> q" and "q < 2 powi (ilog2 q + 1)"
proof -
  obtain a b where ab: "quotient_of q = (a, b)" by (cases "quotient_of q")
  have bpos: "0 < b" using ab quotient_of_denom_pos by blast
  have q: "q = of_int a / of_int b" using ab by (rule quotient_of_div)
  have apos: "0 < a" using assms bpos q by (simp add: zero_less_divide_iff)
  define la lb where "la = bitlen a" and "lb = bitlen b"
  have la1: "1 \<le> la" and lb1: "1 \<le> lb"
    using apos bpos bitlen_eq_zero_iff [of a] bitlen_eq_zero_iff [of b]
      bitlen_nonneg [of a] bitlen_nonneg [of b]
    unfolding la_def lb_def by linarith+
  have "2 ^ nat (la - 1) \<le> a" "a < 2 ^ nat la" "2 ^ nat (lb - 1) \<le> b" "b < 2 ^ nat lb"
    using bitlen_bounds [OF apos] bitlen_bounds [OF bpos] unfolding la_def lb_def by simp_all
  then have "(of_int (2 ^ nat (la - 1)) :: rat) \<le> of_int a" "(of_int a :: rat) < of_int (2 ^ nat la)"
       "(of_int (2 ^ nat (lb - 1)) :: rat) \<le> of_int b" "(of_int b :: rat) < of_int (2 ^ nat lb)"
    by (simp_all only: of_int_le_iff of_int_less_iff)
  then have ra: "(2::rat) powi (la - 1) \<le> of_int a" "of_int a < (2::rat) powi la"
        and rb: "(2::rat) powi (lb - 1) \<le> of_int b" "of_int b < (2::rat) powi lb"
    using la1 lb1 by (simp_all add: power_int_nonneg_exp)
  have lo: "(2::rat) powi (la - lb - 1) < q"
  proof -
    have "(2::rat) powi (la - 1) / 2 powi lb < of_int a / of_int b"
      by (rule frac_less2) (use ra rb bpos in simp_all)
    moreover have "(2::rat) powi (la - lb - 1) = 2 powi (la - 1) / 2 powi lb"
      using p2_diff [of "la - 1" lb] by (simp add: algebra_simps)
    ultimately show ?thesis using q by simp
  qed
  have hi: "q < (2::rat) powi (la - lb + 1)"
  proof -
    have "of_int a / of_int b < (2::rat) powi la / 2 powi (lb - 1)"
      by (rule frac_less) (use ra rb apos in simp_all)
    moreover have "(2::rat) powi (la - lb + 1) = 2 powi la / 2 powi (lb - 1)"
      using p2_diff [of la "lb - 1"] by (simp add: algebra_simps)
    ultimately show ?thesis using q by simp
  qed
  have il: "ilog2 q = (if 2 powi (la - lb) \<le> q then la - lb else la - lb - 1)"
    by (simp add: ilog2_def ab la_def lb_def Let_def)
  show "2 powi ilog2 q \<le> q" using lo by (simp add: il)
  show "q < 2 powi (ilog2 q + 1)" using hi by (simp add: il not_le)
qed

lemma ilog2_unique:
  assumes "2 powi e \<le> q" "q < 2 powi (e + 1)"
  shows "ilog2 q = e"
proof -
  have qpos: "0 < q" using assms(1) p2_pos [of e] by linarith
  have "(2::rat) powi ilog2 q < 2 powi (e + 1)" "(2::rat) powi e < 2 powi (ilog2 q + 1)"
    using ilog2_bounds [OF qpos] assms by linarith+
  then show ?thesis by (simp add: p2_less_iff)
qed

lemma ilog2_mono:
  assumes "0 < x" "x \<le> y"
  shows "ilog2 x \<le> ilog2 y"
proof -
  have "(2::rat) powi ilog2 x < 2 powi (ilog2 y + 1)"
    using ilog2_bounds [of x] ilog2_bounds [of y] assms by linarith
  then show ?thesis by (simp add: p2_less_iff)
qed

lemma ilog2_less:
  assumes "0 < q" "q < 2 powi e"
  shows "ilog2 q < e"
proof -
  have "(2::rat) powi ilog2 q < 2 powi e" using ilog2_bounds(1) [OF assms(1)] assms(2) by linarith
  then show ?thesis by (simp add: p2_less_iff)
qed

lemma ilog2_p2 [simp]: "ilog2 (2 powi e) = e"
  by (rule ilog2_unique) (simp_all add: p2_less_iff)

lemma ilog2_double:
  assumes "0 < q"
  shows "ilog2 (2 * q) = ilog2 q + 1"
proof (rule ilog2_unique)
  show "2 powi (ilog2 q + 1) \<le> 2 * q"
    using ilog2_bounds(1) [OF assms] by (simp add: p2_add)
  have e: "(2::rat) powi (ilog2 q + 1 + 1) = 2 powi (ilog2 q + 1) * 2"
    using p2_add [of "ilog2 q + 1" 1] by simp
  show "2 * q < 2 powi (ilog2 q + 1 + 1)"
    unfolding e using ilog2_bounds(2) [OF assms] by linarith
qed

subsection \<open>Rounding to binary64\<close>

lemma round64_zero [simp]: "round64 0 = 0"
  by (simp add: round64_def)

lemma round64_nonneg: "0 \<le> q \<Longrightarrow> 0 \<le> round64 q"
  by (simp add: round64_def rhe_nonneg)

lemma ulp_exp_ge: "- 1074 \<le> ulp_exp q"
  by (simp add: ulp_exp_def)

lemma mantissa_le:
  assumes "0 < q"
  shows "round_half_even (q / 2 powi ulp_exp q) \<le> 2 ^ 53"
proof -
  have "q < 2 powi (ilog2 q + 1)" using ilog2_bounds(2) [OF assms] .
  also have "\<dots> \<le> 2 powi (ulp_exp q + 53)"
    using assms by (simp add: p2_le_iff ulp_exp_def)
  also have "\<dots> = 2 powi ulp_exp q * 2 ^ 53" by (simp add: p2_add)
  finally have "q / 2 powi ulp_exp q \<le> of_int (2 ^ 53)"
    by (simp add: pos_divide_le_eq mult.commute)
  from rhe_mono [OF this] show ?thesis by (simp only: rhe_of_int)
qed

lemma mantissa_ge:
  assumes "0 < q" "- 1022 \<le> ilog2 q"
  shows "2 ^ 52 \<le> round_half_even (q / 2 powi ulp_exp q)"
proof -
  have ue: "ulp_exp q = ilog2 q - 52" using assms by (simp add: ulp_exp_def)
  have "2 powi ulp_exp q * 2 ^ 52 = (2::rat) powi (ulp_exp q + 52)" by (simp add: p2_add)
  also have "\<dots> \<le> q" using ilog2_bounds(1) [OF assms(1)] by (simp add: ue)
  finally have "of_int (2 ^ 52) \<le> q / 2 powi ulp_exp q"
    by (simp add: pos_le_divide_eq mult.commute)
  from rhe_mono [OF this] show ?thesis by (simp only: rhe_of_int)
qed

lemma round64_le_top:
  assumes "0 < q"
  shows "round64 q \<le> 2 powi (ulp_exp q + 53)"
proof -
  have "(of_int (round_half_even (q / 2 powi ulp_exp q)) :: rat) \<le> of_int (2 ^ 53)"
    using mantissa_le [OF assms] by (simp only: of_int_le_iff)
  then have "of_int (round_half_even (q / 2 powi ulp_exp q)) * 2 powi ulp_exp q
      \<le> of_int (2 ^ 53) * (2::rat) powi ulp_exp q"
    by (rule mult_right_mono) simp
  then show ?thesis using assms by (simp add: round64_def p2_add)
qed

lemma round64_ge_bottom:
  assumes "0 < q" "- 1022 \<le> ilog2 q"
  shows "2 powi (ulp_exp q + 52) \<le> round64 q"
proof -
  have "(of_int (2 ^ 52) :: rat) \<le> of_int (round_half_even (q / 2 powi ulp_exp q))"
    using mantissa_ge [OF assms] by (simp only: of_int_le_iff)
  then have "of_int (2 ^ 52) * (2::rat) powi ulp_exp q
      \<le> of_int (round_half_even (q / 2 powi ulp_exp q)) * 2 powi ulp_exp q"
    by (rule mult_right_mono) simp
  then show ?thesis using assms by (simp add: round64_def p2_add)
qed

lemma round64_mono:
  assumes "0 \<le> x" "x \<le> y"
  shows "round64 x \<le> round64 y"
proof (cases "x = 0")
  case True
  then show ?thesis using assms round64_nonneg [of y] by simp
next
  case False
  then have xpos: "0 < x" and ypos: "0 < y" using assms by simp_all
  have le: "ulp_exp x \<le> ulp_exp y"
    using ilog2_mono [OF xpos assms(2)] xpos ypos by (simp add: ulp_exp_def)
  show ?thesis
  proof (cases "ulp_exp x = ulp_exp y")
    case True
    have "x / 2 powi ulp_exp y \<le> y / 2 powi ulp_exp y"
      using assms(2) by (simp add: divide_right_mono)
    then have "(of_int (round_half_even (x / 2 powi ulp_exp y)) :: rat)
        \<le> of_int (round_half_even (y / 2 powi ulp_exp y))"
      using rhe_mono by (simp only: of_int_le_iff)
    then have "of_int (round_half_even (x / 2 powi ulp_exp y)) * (2::rat) powi ulp_exp y
        \<le> of_int (round_half_even (y / 2 powi ulp_exp y)) * 2 powi ulp_exp y"
      by (rule mult_right_mono) simp
    then show ?thesis using xpos ypos True by (simp add: round64_def)
  next
    case False
    then have lt: "ulp_exp x < ulp_exp y" using le by simp
    then have "- 1022 \<le> ilog2 y" using ypos xpos by (simp add: ulp_exp_def max_def split: if_splits)
    then have "2 powi (ulp_exp y + 52) \<le> round64 y" using round64_ge_bottom ypos by simp
    moreover have "round64 x \<le> 2 powi (ulp_exp x + 53)" using round64_le_top xpos by simp
    moreover have "(2::rat) powi (ulp_exp x + 53) \<le> 2 powi (ulp_exp y + 52)"
      using lt by (simp add: p2_le_iff)
    ultimately show ?thesis by linarith
  qed
qed

lemma round64_exact:
  assumes "q / 2 powi ulp_exp q = of_int m"
  shows "round64 q = q"
proof -
  from assms have "of_int m * 2 powi ulp_exp q = q"
    by (simp add: nonzero_divide_eq_eq)
  then show ?thesis by (simp add: round64_def assms)
qed

lemma round64_scaled:
  assumes "0 \<le> m" "m \<le> 2 ^ 53" "- 1074 \<le> e"
  shows "round64 (of_int m * 2 powi e) = of_int m * 2 powi e"
proof (cases "m = 0")
  case True
  then show ?thesis by simp
next
  case False
  define q :: rat where "q = of_int m * 2 powi e"
  have mpos: "0 < m" using False assms(1) by simp
  then have qpos: "0 < q" by (simp add: q_def)
  have "(of_int m :: rat) \<le> of_int (2 ^ 53)" using assms(2) by (simp only: of_int_le_iff)
  then have "of_int m * (2::rat) powi e \<le> of_int (2 ^ 53) * 2 powi e"
    by (rule mult_right_mono) simp
  then have qle: "q \<le> 2 powi (e + 53)" by (simp add: q_def p2_add)
  have "\<exists>k. q / 2 powi ulp_exp q = of_int k"
  proof (cases "q = 2 powi (e + 53)")
    case True
    have "ilog2 q = e + 53"
      by (rule ilog2_unique) (simp_all add: True p2_less_iff)
    then have "ulp_exp q = e + 1" using assms(3) qpos by (simp add: ulp_exp_def)
    then have "q / 2 powi ulp_exp q = 2 powi (e + 53 - (e + 1))"
      by (simp only: True p2_diff)
    then have "q / 2 powi ulp_exp q = of_int (2 ^ 52)" by simp
    then show ?thesis ..
  next
    case False
    then have "q < 2 powi (e + 53)" using qle by simp
    then have "ilog2 q < e + 53" using ilog2_less qpos by simp
    then have le: "ulp_exp q \<le> e" using assms(3) qpos by (simp add: ulp_exp_def)
    have "q / 2 powi ulp_exp q = of_int m * 2 powi (e - ulp_exp q)"
      by (simp add: q_def p2_diff)
    also have "\<dots> = of_int m * 2 ^ nat (e - ulp_exp q)"
      using le by (simp add: power_int_nonneg_exp)
    also have "\<dots> = of_int (m * 2 ^ nat (e - ulp_exp q))" by simp
    finally show ?thesis ..
  qed
  then obtain k where "q / 2 powi ulp_exp q = of_int k" ..
  then have "round64 q = q" by (rule round64_exact)
  then show ?thesis by (simp add: q_def)
qed

lemma round64_form:
  assumes "0 \<le> q"
  shows "\<exists>m e. round64 q = of_int m * 2 powi e \<and> 0 \<le> m \<and> m \<le> 2 ^ 53 \<and> - 1074 \<le> e"
proof (cases "q = 0")
  case True
  have "round64 q = of_int 0 * 2 powi 0" using True by simp
  then show ?thesis by (metis order_refl zero_le_numeral zero_le_power neg_numeral_le_zero)
next
  case False
  then have qpos: "0 < q" using assms by simp
  have "round64 q = of_int (round_half_even (q / 2 powi ulp_exp q)) * 2 powi ulp_exp q"
    using False by (simp add: round64_def)
  moreover have "0 \<le> round_half_even (q / 2 powi ulp_exp q)"
    using qpos by (simp add: rhe_nonneg)
  ultimately show ?thesis using mantissa_le [OF qpos] ulp_exp_ge [of q] by blast
qed

lemma round64_idem:
  assumes "0 \<le> q"
  shows "round64 (round64 q) = round64 q"
  using round64_form [OF assms] round64_scaled by auto

lemma round64_double:
  assumes "0 \<le> q"
  shows "round64 (2 * round64 q) = 2 * round64 q"
proof -
  obtain m e where me: "round64 q = of_int m * 2 powi e" "0 \<le> m" "m \<le> 2 ^ 53" "- 1074 \<le> e"
    using round64_form [OF assms] by blast
  have "2 * round64 q = of_int m * 2 powi (e + 1)" by (simp add: me(1) p2_add)
  moreover have "round64 (of_int m * 2 powi (e + 1)) = of_int m * 2 powi (e + 1)"
    by (rule round64_scaled) (use me in simp_all)
  ultimately show ?thesis by simp
qed

lemma round64_of_int:
  assumes "0 \<le> k" "k \<le> 2 ^ 53"
  shows "round64 (of_int k) = of_int k"
  using round64_scaled [OF assms, of 0] by simp

lemma round64_one [simp]: "round64 1 = 1"
  using round64_of_int [of 1] by simp

lemma round64_half [simp]: "round64 (1 / 2) = 1 / 2"
  using round64_scaled [of 1 "- 1"] by (simp add: power_int_minus_divide)

lemma round64_two [simp]: "round64 2 = 2"
  using round64_of_int [of 2] by simp

lemma round64_unit:
  assumes "0 \<le> q" "q \<le> 1"
  shows "0 \<le> round64 q" "round64 q \<le> 1"
  using round64_nonneg [OF assms(1)] round64_mono [OF assms] by simp_all

lemma round64_ge_p2:
  assumes "2 powi e \<le> q" "- 1074 \<le> e"
  shows "2 powi e \<le> round64 q"
proof -
  have "round64 (of_int 1 * 2 powi e) = of_int 1 * 2 powi e"
    by (rule round64_scaled) (use assms in simp_all)
  moreover have "round64 (2 powi e) \<le> round64 q"
    by (rule round64_mono) (use assms in simp_all)
  ultimately show ?thesis by simp
qed

lemma round64_scale2:
  assumes "2 powi e \<le> q" "- 1022 \<le> e"
  shows "round64 (2 * q) = 2 * round64 q"
proof -
  have qpos: "0 < q" using assms(1) p2_pos [of e] by linarith
  have "ilog2 (2 powi e) \<le> ilog2 q" by (rule ilog2_mono) (use assms in simp_all)
  then have lo: "- 1022 \<le> ilog2 q" using assms(2) by simp
  have u: "ulp_exp (2 * q) = ulp_exp q + 1"
    using qpos lo by (simp add: ulp_exp_def ilog2_double)
  have "2 * q / 2 powi (ulp_exp q + 1) = q / 2 powi ulp_exp q"
    by (simp add: p2_add)
  then show ?thesis using qpos by (simp add: round64_def u p2_add)
qed

subsection \<open>Finite and non-finite results\<close>

lemma rnd_zero [simp]: "rnd 0 = Fin 0"
  by (simp add: rnd_def)

lemma rnd_fin:
  assumes "0 \<le> q" "q \<le> 2 ^ 53"
  shows "rnd q = Fin (round64 q)"
proof (cases "round64 q = 0")
  case True
  then show ?thesis by (simp add: rnd_def)
next
  case False
  then have rpos: "0 < round64 q" using round64_nonneg [OF assms(1)] by simp
  have "round64 q \<le> round64 (of_int (2 ^ 53))"
    using round64_mono [OF assms] by simp
  also have "\<dots> = 2 ^ 53" using round64_of_int [of "2 ^ 53"] by simp
  also have "\<dots> < (2::rat) powi 54" by simp
  finally have "ilog2 (round64 q) < 54" using ilog2_less rpos by blast
  then show ?thesis using rpos False by (simp add: rnd_def)
qed

lemma rnd_ge_one:
  assumes "1 \<le> q"
  shows "rnd q = PInf \<or> (\<exists>r. rnd q = Fin r \<and> 1 \<le> r)"
proof -
  have "round64 1 \<le> round64 q" using assms by (intro round64_mono) simp_all
  then have "1 \<le> round64 q" by simp
  then show ?thesis by (simp add: rnd_def Let_def)
qed

lemma f64_of_int_exact:
  assumes "0 \<le> k" "k \<le> 2 ^ 53"
  shows "f64_of_int k = Fin (of_int k)"
proof -
  have "(of_int k :: rat) \<le> of_int (2 ^ 53)" using assms(2) by (simp only: of_int_le_iff)
  then have "rnd (of_int k) = Fin (round64 (of_int k))"
    using assms(1) by (intro rnd_fin) simp_all
  then show ?thesis using round64_of_int [OF assms] by (simp add: f64_of_int_def)
qed

lemma true_divide_pos:
  assumes "0 \<le> a" "a \<le> 2 ^ 53" "0 < b" "b \<le> 2 ^ 53"
  shows "true_divide a b = Fin (round64 (of_int a / of_int b))"
proof -
  have "(of_int a :: rat) / of_int b \<le> of_int a / 1"
    using assms by (intro divide_left_mono) simp_all
  also have "(of_int a :: rat) \<le> of_int (2 ^ 53)" using assms(2) by (simp only: of_int_le_iff)
  finally have "(of_int a :: rat) / of_int b \<le> 2 ^ 53" by simp
  then have "rnd (of_int a / of_int b) = Fin (round64 (of_int a / of_int b))"
    using assms by (intro rnd_fin) simp_all
  then show ?thesis
    using assms by (simp add: true_divide_def f64_of_int_exact)
qed

lemma true_divide_zero:
  assumes "0 \<le> a" "a \<le> 2 ^ 53"
  shows "true_divide a 0 = (if a = 0 then NaN else PInf)"
  using assms f64_of_int_exact [of 0] by (simp add: true_divide_def f64_of_int_exact)

lemma true_divide_zero_zero [simp]: "true_divide 0 0 = NaN"
  by (simp add: true_divide_def f64_of_int_def)

lemma true_divide_zero_num:
  assumes "1 \<le> b"
  shows "true_divide 0 b = Fin 0"
proof -
  have "(1::rat) \<le> of_int b" using assms by simp
  from rnd_ge_one [OF this] show ?thesis
    by (auto simp add: true_divide_def f64_of_int_def)
qed

lemma true_divide_unit:
  assumes "0 \<le> a" "a \<le> b" "0 < b" "b \<le> 2 ^ 53"
  shows "true_divide a b = Fin (round64 (of_int a / of_int b))"
    and "0 \<le> (of_int a :: rat) / of_int b" and "(of_int a :: rat) / of_int b \<le> 1"
    and "in_unit (true_divide a b)"
proof -
  show td: "true_divide a b = Fin (round64 (of_int a / of_int b))"
    by (rule true_divide_pos) (use assms in simp_all)
  show q: "0 \<le> (of_int a :: rat) / of_int b" "(of_int a :: rat) / of_int b \<le> 1"
    using assms by simp_all
  show "in_unit (true_divide a b)"
    using round64_unit [OF q] by (simp add: td)
qed

lemma fraction_low:
  assumes "0 \<le> a" "0 < b" "b \<le> 2 ^ 53"
  shows "(of_int a :: rat) / of_int b = 0 \<or> 2 powi (- 53) \<le> (of_int a :: rat) / of_int b"
proof (cases "a = 0")
  case True
  then show ?thesis by simp
next
  case False
  then have "(1::rat) \<le> of_int a" using assms(1) by simp
  moreover have "(of_int b :: rat) \<le> of_int (2 ^ 53)" using assms(3) by (simp only: of_int_le_iff)
  ultimately have "(1::rat) / of_int (2 ^ 53) \<le> of_int a / of_int b"
    using assms(2) by (intro frac_le) simp_all
  moreover have "(2::rat) powi (- 53) = 1 / of_int (2 ^ 53)"
    by (simp add: power_int_minus_divide)
  ultimately show ?thesis by simp
qed

lemma fdiv_by_zero_nonfinite: "is_nonfinite (fdiv x (Fin 0))"
  by (cases x) simp_all

lemma fadd_NaN_right [simp]: "fadd x NaN = NaN"
  by (cases x) simp_all

lemma fmul_NaN_right [simp]: "fmul x NaN = NaN"
  by (cases x) simp_all

lemma fdiv_NaN_right [simp]: "fdiv x NaN = NaN"
  by (cases x) simp_all

subsection \<open>Complementary fractions\<close>

lemma round64_near_one_below: "round64 (1 - 1 / 2 ^ 54) = 1"
  by code_simp

lemma round64_near_one_above: "round64 (1 + 1 / 2 ^ 54) = 1"
  by code_simp

lemma round64_upper_half:
  assumes "1 / 2 \<le> y" "y < 1"
  shows "round64 y = of_int (round_half_even (y * 2 ^ 53)) / 2 ^ 53"
proof -
  have "ilog2 y = - 1"
    by (rule ilog2_unique) (use assms in \<open>simp_all add: power_int_minus_divide\<close>)
  then have "ulp_exp y = - 53" using assms by (simp add: ulp_exp_def)
  then show ?thesis using assms by (simp add: round64_def power_int_minus_divide)
qed

lemma complementary_low:
  assumes "0 \<le> x" "x \<le> 1 / 2"
  shows "round64 (round64 x + round64 (1 - x)) = 1"
proof (cases "x = 0")
  case True
  then show ?thesis by simp
next
  case False
  then have xpos: "0 < x" using assms by simp
  define X where "X = x * 2 ^ 54"
  define g :: rat where "g = 2 powi (- 54)"
  have g: "g = 1 / 2 ^ 54" by (simp add: g_def power_int_minus_divide)
  have xg: "x = X * g" by (simp add: X_def g)
  have X0: "0 \<le> X" and X1: "X \<le> 2 ^ 53" using assms by (simp_all add: X_def)
  have fl0: "0 \<le> \<lfloor>X\<rfloor>" using X0 by simp
  have cl1: "\<lceil>X\<rceil> \<le> 2 ^ 53" using X1 by (simp add: ceiling_le_iff)
  have flcl: "\<lfloor>X\<rfloor> \<le> \<lceil>X\<rceil>" by (rule floor_le_ceiling)
  have lo_a: "of_int \<lfloor>X\<rfloor> * g \<le> round64 x"
  proof -
    have "round64 (of_int \<lfloor>X\<rfloor> * g) = of_int \<lfloor>X\<rfloor> * g"
      unfolding g_def by (rule round64_scaled) (use fl0 cl1 flcl in simp_all)
    moreover have "round64 (of_int \<lfloor>X\<rfloor> * g) \<le> round64 x"
      by (rule round64_mono) (use fl0 in \<open>simp_all add: xg g\<close>)
    ultimately show ?thesis by simp
  qed
  have hi_a: "round64 x \<le> of_int \<lceil>X\<rceil> * g"
  proof -
    have "round64 (of_int \<lceil>X\<rceil> * g) = of_int \<lceil>X\<rceil> * g"
      unfolding g_def by (rule round64_scaled) (use fl0 cl1 flcl in simp_all)
    moreover have "round64 x \<le> round64 (of_int \<lceil>X\<rceil> * g)"
      by (rule round64_mono) (use assms in \<open>simp_all add: xg g\<close>)
    ultimately show ?thesis by simp
  qed
  define B where "B = 2 * round_half_even ((1 - x) * 2 ^ 53)"
  have b: "round64 (1 - x) = of_int B * g"
    using round64_upper_half [of "1 - x"] assms xpos by (simp add: B_def g)
  define c :: rat where "c = 2 ^ 53"
  define R where "R = round_half_even ((1 - x) * c)"
  have h: "\<bar>of_int R - (1 - x) * c\<bar> \<le> 1 / 2"
    unfolding R_def by (rule rhe_err)
  have e: "(1 - x) * c = c - x * c" by (simp add: left_diff_distrib)
  have r: "of_int R - (c - x * c) \<le> 1 / 2" "- (1 / 2) \<le> of_int R - (c - x * c)"
    using h unfolding e by linarith+
  have BR: "(of_int B :: rat) = 2 * of_int R" by (simp add: B_def R_def c_def)
  have Xc: "X = 2 * (x * c)" by (simp add: X_def c_def)
  have Gc: "(2::rat) ^ 54 = 2 * c" by (simp add: c_def)
  have Berr: "\<bar>of_int B - (2 ^ 54 - X)\<bar> \<le> 1"
    unfolding BR Xc Gc abs_le_iff using r by linarith
  have "X < of_int \<lfloor>X\<rfloor> + 1" "of_int \<lceil>X\<rceil> - 1 < X" by linarith+
  with Berr have "(of_int (2 ^ 54 - \<lfloor>X\<rfloor> - 2) :: rat) < of_int B"
    "(of_int B :: rat) < of_int (2 ^ 54 - \<lceil>X\<rceil> + 2)"
    by (simp_all add: abs_le_iff)
  then have "2 ^ 54 - \<lfloor>X\<rfloor> - 2 < B" "B < 2 ^ 54 - \<lceil>X\<rceil> + 2"
    by (simp_all only: of_int_less_iff)
  then have Blo: "2 ^ 54 - \<lfloor>X\<rfloor> - 1 \<le> B" and Bhi: "B \<le> 2 ^ 54 - \<lceil>X\<rceil> + 1"
    by linarith+
  have "(of_int (2 ^ 54 - \<lfloor>X\<rfloor> - 1) :: rat) \<le> of_int B"
    "(of_int B :: rat) \<le> of_int (2 ^ 54 - \<lceil>X\<rceil> + 1)"
    using Blo Bhi by (simp_all only: of_int_le_iff)
  then have "(2 ^ 54 - of_int \<lfloor>X\<rfloor> - 1) * g \<le> of_int B * g"
    "of_int B * g \<le> (2 ^ 54 - of_int \<lceil>X\<rceil> + 1) * g"
    by (simp_all add: g)
  with lo_a hi_a b have "(2 ^ 54 - 1) * g \<le> round64 x + round64 (1 - x)"
    "round64 x + round64 (1 - x) \<le> (2 ^ 54 + 1) * g"
    by (simp_all add: algebra_simps)
  then have s: "1 - 1 / 2 ^ 54 \<le> round64 x + round64 (1 - x)"
    "round64 x + round64 (1 - x) \<le> 1 + 1 / 2 ^ 54"
    by (simp_all add: g algebra_simps)
  have "round64 (1 - 1 / 2 ^ 54) \<le> round64 (round64 x + round64 (1 - x))"
    by (rule round64_mono) (use s in simp_all)
  moreover have "round64 (round64 x + round64 (1 - x)) \<le> round64 (1 + 1 / 2 ^ 54)"
    by (rule round64_mono) (use s assms round64_nonneg in simp_all)
  ultimately show ?thesis
    by (simp only: round64_near_one_below round64_near_one_above)
qed

lemma complementary_sum:
  assumes "0 \<le> x" "x \<le> 1"
  shows "round64 (round64 x + round64 (1 - x)) = 1"
proof (cases "x \<le> 1 / 2")
  case True
  then show ?thesis using assms complementary_low by simp
next
  case False
  then have "round64 (round64 (1 - x) + round64 (1 - (1 - x))) = 1"
    using assms by (intro complementary_low) simp_all
  then show ?thesis by (simp add: add.commute)
qed

subsection \<open>The harmonic mean of two fractions\<close>

lemma harmonic_parts:
  assumes "0 \<le> x" "x \<le> 1" "0 \<le> y" "y \<le> 1"
  shows "fmul (Fin (round64 x)) (Fin (round64 y)) = Fin (round64 (round64 x * round64 y))"
    and "fadd (Fin (round64 x)) (Fin (round64 y)) = Fin (round64 (round64 x + round64 y))"
    and "0 \<le> round64 (round64 x * round64 y)"
    and "2 * round64 (round64 x * round64 y) \<le> round64 (round64 x + round64 y)"
proof -
  define a b where "a = round64 x" and "b = round64 y"
  have a: "0 \<le> a" "a \<le> 1" "round64 a = a" "round64 (2 * a) = 2 * a"
    using round64_unit [OF assms(1,2)] round64_idem [OF assms(1)] round64_double [OF assms(1)]
    by (simp_all add: a_def)
  have b: "0 \<le> b" "b \<le> 1" "round64 b = b" "round64 (2 * b) = 2 * b"
    using round64_unit [OF assms(3,4)] round64_idem [OF assms(3)] round64_double [OF assms(3)]
    by (simp_all add: b_def)
  have ab: "0 \<le> a * b" "a * b \<le> a" "a * b \<le> b"
    using a(1,2) b(1,2) by (simp_all add: mult_left_le mult_right_le_one_le mult_left_le_one_le)
  have "rnd (a * b) = Fin (round64 (a * b))"
    by (rule rnd_fin) (use ab a in simp_all)
  then show "fmul (Fin (round64 x)) (Fin (round64 y)) = Fin (round64 (round64 x * round64 y))"
    by (simp add: a_def b_def)
  have "rnd (a + b) = Fin (round64 (a + b))"
    by (rule rnd_fin) (use a b in simp_all)
  then show "fadd (Fin (round64 x)) (Fin (round64 y)) = Fin (round64 (round64 x + round64 y))"
    by (simp add: a_def b_def)
  show "0 \<le> round64 (round64 x * round64 y)"
    using ab(1) unfolding a_def b_def by (rule round64_nonneg)
  have ta: "round64 (a * b) \<le> a" using round64_mono [OF ab(1,2)] a(3) by simp
  have tb: "round64 (a * b) \<le> b" using round64_mono [OF ab(1,3)] b(3) by simp
  have "2 * round64 (a * b) \<le> round64 (a + b)"
  proof (cases "a \<le> b")
    case True
    have "round64 (2 * a) \<le> round64 (a + b)"
      by (rule round64_mono) (use a True in simp_all)
    then show ?thesis using ta a(4) by simp
  next
    case False
    have "round64 (2 * b) \<le> round64 (a + b)"
      by (rule round64_mono) (use b False in simp_all)
    then show ?thesis using tb b(4) by simp
  qed
  then show "2 * round64 (round64 x * round64 y) \<le> round64 (round64 x + round64 y)"
    by (simp add: a_def b_def)
qed

lemma f1_in_unit:
  assumes "0 \<le> x" "x \<le> 1" "0 \<le> y" "y \<le> 1"
    and "fadd (Fin (round64 x)) (Fin (round64 y)) \<noteq> Fin 0"
  shows "in_unit (fmul (Fin 2) (fdiv (fmul (Fin (round64 x)) (Fin (round64 y)))
                                     (fadd (Fin (round64 x)) (Fin (round64 y)))))"
proof -
  define t s where "t = round64 (round64 x * round64 y)"
    and "s = round64 (round64 x + round64 y)"
  note hp = harmonic_parts [OF assms(1-4), folded t_def s_def]
  have s0: "s \<noteq> 0" using assms(5) unfolding hp(2) by simp
  then have spos: "0 < s" using hp(3,4) by linarith
  have q: "0 \<le> t / s" "t / s \<le> 1 / 2"
    using hp(3,4) spos by (simp_all add: pos_divide_le_eq)
  have h: "0 \<le> round64 (t / s)" "round64 (t / s) \<le> 1 / 2"
    using round64_nonneg [OF q(1)] round64_mono [OF q] by simp_all
  have "t / s \<le> 2 ^ 53" using q(2) by (rule order_trans) simp
  then have "rnd (t / s) = Fin (round64 (t / s))"
    using q(1) by (intro rnd_fin)
  then have d: "fdiv (Fin t) (Fin s) = Fin (round64 (t / s))" using s0 by simp
  have "2 * round64 (t / s) \<le> 1" using h(2) by linarith
  then have "2 * round64 (t / s) \<le> 2 ^ 53" by (rule order_trans) simp
  moreover have "0 \<le> 2 * round64 (t / s)" using h(1) by linarith
  ultimately have "rnd (2 * round64 (t / s)) = Fin (round64 (2 * round64 (t / s)))"
    by (intro rnd_fin)
  moreover have "0 \<le> round64 (2 * round64 (t / s))" "round64 (2 * round64 (t / s)) \<le> 1"
    using round64_unit [of "2 * round64 (t / s)"] h by simp_all
  ultimately show ?thesis unfolding hp(1,2) d by simp
qed

lemma f1_nan:
  assumes "0 \<le> x" "x \<le> 1" "0 \<le> y" "y \<le> 1"
    and "fadd (Fin (round64 x)) (Fin (round64 y)) = Fin 0"
  shows "fmul (Fin 2) (fdiv (fmul (Fin (round64 x)) (Fin (round64 y)))
                            (fadd (Fin (round64 x)) (Fin (round64 y)))) = NaN"
proof -
  define t s where "t = round64 (round64 x * round64 y)"
    and "s = round64 (round64 x + round64 y)"
  note hp = harmonic_parts [OF assms(1-4), folded t_def s_def]
  have "s = 0" using assms(5) unfolding hp(2) by simp
  then have "t = 0" using hp(3,4) by linarith
  then show ?thesis using \<open>s = 0\<close> unfolding hp(1,2) by simp
qed

lemma f1_association:
  assumes x: "0 \<le> x" "x \<le> 1" "x = 0 \<or> 2 powi (- 53) \<le> x"
    and y: "0 \<le> y" "y \<le> 1" "y = 0 \<or> 2 powi (- 53) \<le> y"
  shows "fdiv (fmul (fmul (Fin 2) (Fin (round64 x))) (Fin (round64 y)))
              (fadd (Fin (round64 x)) (Fin (round64 y)))
         = fmul (Fin 2) (fdiv (fmul (Fin (round64 x)) (Fin (round64 y)))
                              (fadd (Fin (round64 x)) (Fin (round64 y))))"
    and "fdiv (fmul (Fin 2) (fmul (Fin (round64 x)) (Fin (round64 y))))
              (fadd (Fin (round64 x)) (Fin (round64 y)))
         = fmul (Fin 2) (fdiv (fmul (Fin (round64 x)) (Fin (round64 y)))
                              (fadd (Fin (round64 x)) (Fin (round64 y))))"
proof -
  define a b where "a = round64 x" and "b = round64 y"
  define t s where "t = round64 (a * b)" and "s = round64 (a + b)"
  note hp = harmonic_parts [OF x(1,2) y(1,2), folded a_def b_def, folded t_def s_def]
  have a: "0 \<le> a" "a \<le> 1" "round64 (2 * a) = 2 * a"
    using round64_unit [OF x(1,2)] round64_double [OF x(1)] by (simp_all add: a_def)
  have b: "0 \<le> b" "b \<le> 1" using round64_unit [OF y(1,2)] by (simp_all add: b_def)
  have ab: "0 \<le> a * b" "a * b \<le> 1" using a b by (simp_all add: mult_le_one)
  have t2: "round64 (2 * t) = 2 * t" unfolding t_def using ab(1) by (rule round64_double)
  have two_a: "fmul (Fin 2) (Fin a) = Fin (2 * a)"
  proof -
    have "2 * a \<le> 2" using a(2) by linarith
    then have "2 * a \<le> 2 ^ 53" by (rule order_trans) simp
    then have "rnd (2 * a) = Fin (round64 (2 * a))" using a(1) by (intro rnd_fin) simp
    then show ?thesis by (simp add: a(3))
  qed
  have two_t: "fmul (Fin 2) (Fin t) = Fin (2 * t)"
  proof -
    have "t \<le> 1" unfolding t_def using round64_unit [OF ab] by simp
    then have "2 * t \<le> 2" by linarith
    then have "2 * t \<le> 2 ^ 53" by (rule order_trans) simp
    then have "rnd (2 * t) = Fin (round64 (2 * t))" using hp(3) by (intro rnd_fin) simp
    then show ?thesis by (simp add: t2)
  qed
  have low: "(2::rat) powi (- 106) \<le> a * b" if nz: "a * b \<noteq> 0"
  proof -
    have "x \<noteq> 0" "y \<noteq> 0" using nz by (auto simp add: a_def b_def)
    then have xl: "2 powi (- 53) \<le> x" and yl: "2 powi (- 53) \<le> y"
      using x(3) y(3) by blast+
    have al: "2 powi (- 53) \<le> a" unfolding a_def using xl by (rule round64_ge_p2) simp
    have bl: "2 powi (- 53) \<le> b" unfolding b_def using yl by (rule round64_ge_p2) simp
    have e: "(2::rat) powi (- 106) = 2 powi (- 53) * 2 powi (- 53)"
      using p2_add [of "- 53" "- 53"] by simp
    show ?thesis unfolding e by (rule mult_mono [OF al bl]) (use a in simp_all)
  qed
  have prod2: "round64 (2 * a * b) = 2 * t"
  proof (cases "a * b = 0")
    case True
    have "t = 0" unfolding t_def True by simp
    moreover have "2 * a * b = 0" using True by (simp only: mult.assoc mult_zero_right)
    ultimately show ?thesis by (simp only: round64_zero mult_zero_right)
  next
    case False
    then have "round64 (2 * (a * b)) = 2 * round64 (a * b)"
      by (intro round64_scale2 [OF low]) simp_all
    then show ?thesis by (simp add: t_def mult.assoc)
  qed
  have two_ab: "fmul (Fin (2 * a)) (Fin b) = Fin (2 * t)"
  proof -
    have "2 * a * b \<le> 2" using ab(2) by (simp add: mult.assoc)
    then have "2 * a * b \<le> 2 ^ 53" by (rule order_trans) simp
    then have "rnd (2 * a * b) = Fin (round64 (2 * a * b))" using ab(1) by (intro rnd_fin) simp
    then show ?thesis by (simp add: prod2)
  qed
  have main: "fdiv (Fin (2 * t)) (Fin s) = fmul (Fin 2) (fdiv (Fin t) (Fin s))"
  proof (cases "t = 0")
    case True
    then show ?thesis by simp
  next
    case False
    then have tpos: "0 < t" using hp(3) by simp
    then have spos: "0 < s" using hp(4) by linarith
    have ab0: "a * b \<noteq> 0" using False by (auto simp add: t_def)
    have tlo: "2 powi (- 106) \<le> t"
      unfolding t_def using low [OF ab0] by (rule round64_ge_p2) simp
    have "round64 (a + b) \<le> round64 2"
      by (rule round64_mono) (use a b in simp_all)
    then have s2: "s \<le> 2" by (simp add: s_def)
    have "(2::rat) powi (- 106) / 2 \<le> t / s"
      by (rule frac_le) (use tlo s2 spos hp(3) in simp_all)
    moreover have "(2::rat) powi (- 107) = 2 powi (- 106) / 2"
      using p2_diff [of "- 106" 1] by simp
    ultimately have qlo: "2 powi (- 107) \<le> t / s" by simp
    have q: "0 \<le> t / s" "t / s \<le> 1 / 2"
      using hp(3,4) spos by (simp_all add: pos_divide_le_eq)
    have h: "0 \<le> round64 (t / s)" "round64 (t / s) \<le> 1 / 2"
      using round64_nonneg [OF q(1)] round64_mono [OF q] by simp_all
    have sc: "round64 (2 * (t / s)) = 2 * round64 (t / s)"
      using qlo by (rule round64_scale2) simp
    have db: "round64 (2 * round64 (t / s)) = 2 * round64 (t / s)"
      using q(1) by (rule round64_double)
    have "t / s \<le> 2 ^ 53" using q(2) by (rule order_trans) simp
    then have d: "rnd (t / s) = Fin (round64 (t / s))" using q(1) by (intro rnd_fin)
    have "2 * (t / s) \<le> 1" using q(2) by linarith
    then have "2 * (t / s) \<le> 2 ^ 53" by (rule order_trans) simp
    moreover have "0 \<le> 2 * (t / s)" using q(1) by linarith
    ultimately have d2: "rnd (2 * (t / s)) = Fin (round64 (2 * (t / s)))" by (intro rnd_fin)
    have "2 * round64 (t / s) \<le> 1" using h(2) by linarith
    then have "2 * round64 (t / s) \<le> 2 ^ 53" by (rule order_trans) simp
    moreover have "0 \<le> 2 * round64 (t / s)" using h(1) by linarith
    ultimately have d3: "rnd (2 * round64 (t / s)) = Fin (round64 (2 * round64 (t / s)))"
      by (intro rnd_fin)
    have "fdiv (Fin (2 * t)) (Fin s) = rnd (2 * (t / s))" using spos by simp
    also have "\<dots> = Fin (2 * round64 (t / s))" by (simp only: d2 sc)
    also have "\<dots> = rnd (2 * round64 (t / s))" by (simp only: d3 db)
    also have "\<dots> = fmul (Fin 2) (fdiv (Fin t) (Fin s))" using spos by (simp add: d)
    finally show ?thesis .
  qed
  show "fdiv (fmul (fmul (Fin 2) (Fin (round64 x))) (Fin (round64 y)))
              (fadd (Fin (round64 x)) (Fin (round64 y)))
         = fmul (Fin 2) (fdiv (fmul (Fin (round64 x)) (Fin (round64 y)))
                              (fadd (Fin (round64 x)) (Fin (round64 y))))"
    unfolding a_def [symmetric] b_def [symmetric] two_a two_ab hp(1,2) by (rule main)
  show "fdiv (fmul (Fin 2) (fmul (Fin (round64 x)) (Fin (round64 y))))
              (fadd (Fin (round64 x)) (Fin (round64 y)))
         = fmul (Fin 2) (fdiv (fmul (Fin (round64 x)) (Fin (round64 y)))
                              (fadd (Fin (round64 x)) (Fin (round64 y))))"
    unfolding a_def [symmetric] b_def [symmetric] hp(1,2) two_t by (rule main)
qed


section \<open>The literal example\<close>

text \<open>
  Claim C1. For observed = [1,1,0,0,1] and predicted = [1,0,0,1,1] the pair counts are
  TP = 2, FP = 1, FN = 1, TN = 1 and \<open>calculate_accuracy\<close> returns accuracy 0.6 (the
  float64 nearest to 6/10), precision, recall and F1 all equal to the float64 nearest
  to 2/3, and specificity 0.5. F1 is the float64 value of
  \<open>2 * ((precision * recall) / (precision + recall))\<close>, and the same scalar results
  from \<open>((2 * precision) * recall) / (precision + recall)\<close>.
\<close>

theorem literal_example_metrics:
  "TP [1,1,0,0,1] [1,0,0,1,1] = 2 \<and> FP [1,1,0,0,1] [1,0,0,1,1] = 1 \<and>
   FN [1,1,0,0,1] [1,0,0,1,1] = 1 \<and> TN [1,1,0,0,1] [1,0,0,1,1] = 1 \<and>
   map_option accuracy (calculate_accuracy [1,1,0,0,1] [1,0,0,1,1]) = Some (rnd (6 / 10)) \<and>
   map_option precision (calculate_accuracy [1,1,0,0,1] [1,0,0,1,1]) = Some (rnd (2 / 3)) \<and>
   map_option recall (calculate_accuracy [1,1,0,0,1] [1,0,0,1,1]) = Some (rnd (2 / 3)) \<and>
   map_option f1 (calculate_accuracy [1,1,0,0,1] [1,0,0,1,1]) = Some (rnd (2 / 3)) \<and>
   map_option specificity (calculate_accuracy [1,1,0,0,1] [1,0,0,1,1]) = Some (Fin (1 / 2)) \<and>
   fmul (Fin 2) (fdiv (fmul (rnd (2 / 3)) (rnd (2 / 3))) (fadd (rnd (2 / 3)) (rnd (2 / 3))))
     = rnd (2 / 3) \<and>
   fdiv (fmul (fmul (Fin 2) (rnd (2 / 3))) (rnd (2 / 3))) (fadd (rnd (2 / 3)) (rnd (2 / 3)))
     = rnd (2 / 3) \<and>
   rnd (6 / 10) = Fin (5404319552844595 / 2 ^ 53) \<and>
   rnd (2 / 3) = Fin (6004799503160661 / 2 ^ 53)"
proof -
  have c: "TP [1,1,0,0,1] [1,0,0,1,1] = 2" "FP [1,1,0,0,1] [1,0,0,1,1] = 1"
    "FN [1,1,0,0,1] [1,0,0,1,1] = 1" "TN [1,1,0,0,1] [1,0,0,1,1] = 1"
    by (simp_all add: TP_def FP_def FN_def TN_def pair_count_def)
  have h: "length [1,1,0,0,1::int] = length [1,0,0,1,1::int]"
    "binary [1,1,0,0,1]" "binary [1,0,0,1,1]"
    by (simp_all add: binary_def)
  from calc_counts [OF h] obtain r where r:
    "calculate_accuracy [1,1,0,0,1] [1,0,0,1,1] = Some r"
    "accuracy r = true_divide 3 5" "precision r = true_divide 2 3"
    "recall r = true_divide 2 3" "specificity r = true_divide 1 2"
    "f1 r = fmul (Fin 2) (fdiv (fmul (precision r) (recall r)) (fadd (precision r) (recall r)))"
    unfolding c by auto
  have v: "true_divide 3 5 = rnd (6 / 10)" "true_divide 2 3 = rnd (2 / 3)"
    "true_divide 1 2 = Fin (1 / 2)"
    by code_simp+
  have f: "fmul (Fin 2) (fdiv (fmul (rnd (2 / 3)) (rnd (2 / 3)))
      (fadd (rnd (2 / 3)) (rnd (2 / 3)))) = rnd (2 / 3)"
    by code_simp
  have f': "fdiv (fmul (fmul (Fin 2) (rnd (2 / 3))) (rnd (2 / 3)))
      (fadd (rnd (2 / 3)) (rnd (2 / 3))) = rnd (2 / 3)"
    by code_simp
  have l: "rnd (6 / 10) = Fin (5404319552844595 / 2 ^ 53)"
    "rnd (2 / 3) = Fin (6004799503160661 / 2 ^ 53)"
    by code_simp+
  have "map_option f1 (calculate_accuracy [1,1,0,0,1] [1,0,0,1,1]) = Some (rnd (2 / 3))"
    by (simp only: r v f option.map)
  moreover have
    "map_option accuracy (calculate_accuracy [1,1,0,0,1] [1,0,0,1,1]) = Some (rnd (6 / 10))"
    "map_option precision (calculate_accuracy [1,1,0,0,1] [1,0,0,1,1]) = Some (rnd (2 / 3))"
    "map_option recall (calculate_accuracy [1,1,0,0,1] [1,0,0,1,1]) = Some (rnd (2 / 3))"
    "map_option specificity (calculate_accuracy [1,1,0,0,1] [1,0,0,1,1]) = Some (Fin (1 / 2))"
    by (simp_all only: r v option.map)
  ultimately show ?thesis using c f f' l by blast
qed


section \<open>Degenerate inputs\<close>

text \<open>
  Claim C2. For every pair of equal-length non-empty binary sequences (of fewer than
  \<open>2\<^sup>5\<^sup>3\<close> labels) \<open>calculate_accuracy\<close> does not raise: it returns the complete record of
  metrics. Where a denominator is zero the affected values are NaN or an infinity: with
  no observed positive, recall (and its aliases), positive_predictive_value and
  negative_predictive_value; with no observed negative, specificity (and its alias);
  with no predicted positive, precision; with precision + recall equal to zero, F1; and
  the two likelihood ratios when their divisor is zero.
\<close>

theorem degenerate_inputs_do_not_raise:
  assumes "length observed = length predicted" "binary observed" "binary predicted"
    "observed \<noteq> []" "length observed < 2 ^ 53"
  shows "\<exists>r. calculate_accuracy observed predicted = Some r \<and>
    (count_label observed 1 = 0 \<longrightarrow>
       is_nonfinite (recall r) \<and> is_nonfinite (sensitivity r) \<and>
       is_nonfinite (true_positive_rate r) \<and> is_nonfinite (positive_predictive_value r) \<and>
       is_nonfinite (negative_predictive_value r)) \<and>
    (count_label observed 0 = 0 \<longrightarrow>
       is_nonfinite (specificity r) \<and> is_nonfinite (true_negative_rate r)) \<and>
    (count_label predicted 1 = 0 \<longrightarrow> is_nonfinite (precision r)) \<and>
    (fadd (precision r) (recall r) = Fin 0 \<longrightarrow> is_nonfinite (f1 r)) \<and>
    (fsub (Fin 1) (specificity r) = Fin 0 \<longrightarrow> is_nonfinite (positive_likelihood r)) \<and>
    (specificity r = Fin 0 \<longrightarrow> is_nonfinite (negative_likelihood r))"
proof -
  define tp fp tn fn where "tp = TP observed predicted" and "fp = FP observed predicted"
    and "tn = TN observed predicted" and "fn = FN observed predicted"
  from calc_counts [OF assms(1-3), folded tp_def fp_def tn_def fn_def] obtain r where r:
    "calculate_accuracy observed predicted = Some r"
    "precision r = true_divide tp (tp + fp)"
    "recall r = true_divide tp (tp + fn)"
    "specificity r = true_divide tn (tn + fp)"
    "negative_predictive_value r = true_divide tn (tp + fn)"
    "f1 r = fmul (Fin 2) (fdiv (fmul (precision r) (recall r)) (fadd (precision r) (recall r)))"
    "sensitivity r = recall r" "true_positive_rate r = recall r"
    "true_negative_rate r = specificity r" "positive_predictive_value r = recall r"
    "positive_likelihood r = fdiv (recall r) (fsub (Fin 1) (specificity r))"
    "negative_likelihood r = fdiv (fsub (Fin 1) (recall r)) (specificity r)"
    by blast
  have nn: "0 \<le> tp" "0 \<le> fp" "0 \<le> tn" "0 \<le> fn"
    unfolding tp_def fp_def tn_def fn_def by (rule counts_nonneg)+
  have len: "int (length observed) = tp + fp + tn + fn"
    unfolding tp_def fp_def tn_def fn_def by (rule length_counts [OF assms(1-3)])
  have N: "tp + fp + tn + fn \<le> 2 ^ 53"
    using length_bound [OF assms(5)] by (simp add: len [symmetric])
  have op: "count_label observed 1 = tp + fn" and on: "count_label observed 0 = tn + fp"
    unfolding tp_def fp_def tn_def fn_def by (rule observed_positive_count [OF assms(1,3)])+
  have pp: "count_label predicted 1 = tp + fp"
    unfolding tp_def fp_def by (rule predicted_positive_count [OF assms(1,2)])
  have c1: "is_nonfinite (recall r) \<and> is_nonfinite (sensitivity r) \<and>
       is_nonfinite (true_positive_rate r) \<and> is_nonfinite (positive_predictive_value r) \<and>
       is_nonfinite (negative_predictive_value r)" if "count_label observed 1 = 0"
  proof -
    have z: "tp = 0" "fn = 0" using that nn unfolding op by linarith+
    have "recall r = NaN" by (simp add: r(3) z)
    moreover have "is_nonfinite (negative_predictive_value r)"
      using true_divide_zero [of tn] nn N by (simp add: r(5) z)
    ultimately show ?thesis by (simp add: r(7,8,10))
  qed
  have c2: "is_nonfinite (specificity r) \<and> is_nonfinite (true_negative_rate r)"
    if "count_label observed 0 = 0"
  proof -
    have z: "tn = 0" "fp = 0" using that nn unfolding on by linarith+
    show ?thesis by (simp add: r(4,9) z)
  qed
  have c3: "is_nonfinite (precision r)" if "count_label predicted 1 = 0"
  proof -
    have z: "tp = 0" "fp = 0" using that nn unfolding pp by linarith+
    show ?thesis by (simp add: r(2) z)
  qed
  have c4: "is_nonfinite (f1 r)" if s: "fadd (precision r) (recall r) = Fin 0"
  proof -
    have d: "tp + fp \<noteq> 0"
    proof
      assume "tp + fp = 0"
      then have "tp = 0" "fp = 0" using nn by linarith+
      then show False using s by (simp add: r(2))
    qed
    have d': "tp + fn \<noteq> 0"
    proof
      assume "tp + fn = 0"
      then have "tp = 0" "fn = 0" using nn by linarith+
      then show False using s by (simp add: r(3))
    qed
    have p: "precision r = Fin (round64 (of_int tp / of_int (tp + fp)))"
      unfolding r(2) by (rule true_divide_unit(1)) (use nn N d d' in simp_all)
    have q: "recall r = Fin (round64 (of_int tp / of_int (tp + fn)))"
      unfolding r(3) by (rule true_divide_unit(1)) (use nn N d d' in simp_all)
    have "0 \<le> (of_int tp :: rat) / of_int (tp + fp)" "(of_int tp :: rat) / of_int (tp + fp) \<le> 1"
      "0 \<le> (of_int tp :: rat) / of_int (tp + fn)" "(of_int tp :: rat) / of_int (tp + fn) \<le> 1"
      using nn d d' by simp_all
    from f1_nan [OF this] s show ?thesis unfolding r(6) p q by simp
  qed
  have c5: "is_nonfinite (positive_likelihood r)" if "fsub (Fin 1) (specificity r) = Fin 0"
    using that by (simp add: r(11) fdiv_by_zero_nonfinite)
  have c6: "is_nonfinite (negative_likelihood r)" if "specificity r = Fin 0"
    using that by (simp add: r(12) fdiv_by_zero_nonfinite)
  show ?thesis using r(1) c1 c2 c3 c4 c5 c6 by blast
qed

theorem degenerate_inputs_do_not_raise_witness:
  "(\<exists>r. calculate_accuracy [0,0] [0,1] = Some r \<and>
       is_nonfinite (recall r) \<and> is_nonfinite (sensitivity r) \<and>
       is_nonfinite (true_positive_rate r) \<and> is_nonfinite (positive_predictive_value r) \<and>
       is_nonfinite (negative_predictive_value r)) \<and>
   (\<exists>r. calculate_accuracy [1,1] [1,0] = Some r \<and>
       is_nonfinite (specificity r) \<and> is_nonfinite (true_negative_rate r)) \<and>
   (\<exists>r. calculate_accuracy [1,0] [0,1] = Some r \<and>
       is_nonfinite (f1 r) \<and> is_nonfinite (negative_likelihood r)) \<and>
   (\<exists>r. calculate_accuracy [1,0] [0,0] = Some r \<and>
       is_nonfinite (precision r) \<and> is_nonfinite (positive_likelihood r))"
proof -
  have A: "\<exists>r. calculate_accuracy [0,0] [0,1] = Some r \<and>
       is_nonfinite (recall r) \<and> is_nonfinite (sensitivity r) \<and>
       is_nonfinite (true_positive_rate r) \<and> is_nonfinite (positive_predictive_value r) \<and>
       is_nonfinite (negative_predictive_value r)"
    using degenerate_inputs_do_not_raise [of "[0,0]" "[0,1]"]
    by (auto simp add: binary_def count_label_def)
  have B: "\<exists>r. calculate_accuracy [1,1] [1,0] = Some r \<and>
       is_nonfinite (specificity r) \<and> is_nonfinite (true_negative_rate r)"
    using degenerate_inputs_do_not_raise [of "[1,1]" "[1,0]"]
    by (auto simp add: binary_def count_label_def)
  have C: "\<exists>r. calculate_accuracy [1,0] [0,1] = Some r \<and>
       is_nonfinite (f1 r) \<and> is_nonfinite (negative_likelihood r)"
  proof -
    have h: "length [1,0::int] = length [0,1::int]" "binary [1,0]" "binary [0,1]"
      "[1,0::int] \<noteq> []" "length [1,0::int] < 2 ^ 53"
      by (simp_all add: binary_def)
    have c: "TP [1,0] [0,1] = 0" "FP [1,0] [0,1] = 1" "FN [1,0] [0,1] = 1" "TN [1,0] [0,1] = 0"
      by (simp_all add: TP_def FP_def FN_def TN_def pair_count_def)
    from calc_counts [OF h(1-3)] obtain r' where r':
      "calculate_accuracy [1,0] [0,1] = Some r'"
      "precision r' = true_divide 0 1" "recall r' = true_divide 0 1"
      "specificity r' = true_divide 0 1"
      unfolding c by auto
    have v: "true_divide 0 1 = Fin 0" by (rule true_divide_zero_num) simp
    from degenerate_inputs_do_not_raise [OF h] show ?thesis
      using r' by (auto simp add: v)
  qed
  have D: "\<exists>r. calculate_accuracy [1,0] [0,0] = Some r \<and>
       is_nonfinite (precision r) \<and> is_nonfinite (positive_likelihood r)"
  proof -
    have h: "length [1,0::int] = length [0,0::int]" "binary [1,0]" "binary [0,0]"
      "[1,0::int] \<noteq> []" "length [1,0::int] < 2 ^ 53"
      by (simp_all add: binary_def)
    have c: "TP [1,0] [0,0] = 0" "FP [1,0] [0,0] = 0" "FN [1,0] [0,0] = 1" "TN [1,0] [0,0] = 1"
      by (simp_all add: TP_def FP_def FN_def TN_def pair_count_def)
    from calc_counts [OF h(1-3)] obtain r' where r':
      "calculate_accuracy [1,0] [0,0] = Some r'"
      "specificity r' = true_divide 1 1"
      unfolding c by auto
    have v: "true_divide 1 1 = Fin 1" using true_divide_unit(1) [of 1 1] by simp
    have pp: "count_label [0,0] 1 = 0" by (simp add: count_label_def)
    from degenerate_inputs_do_not_raise [OF h] show ?thesis
      using r' by (auto simp add: v pp fsub_def)
  qed
  from A B C D show ?thesis by blast
qed


section \<open>All-negative observed labels\<close>

text \<open>
  Claim C3, as amended. For every non-empty observed sequence of zeros only and every
  binary predicted sequence of the same length (fewer than \<open>2\<^sup>5\<^sup>3\<close> labels),
  \<open>calculate_accuracy\<close> returns NaN for recall and positive_predictive_value and a
  finite specificity in [0,1]; precision is NaN only if the predicted sequence has no
  positive label either, and is 0.0 as soon as one label is predicted positive.
\<close>

theorem all_negative_observed:
  assumes "length observed = length predicted" "observed \<noteq> []"
    "list_all (\<lambda>x. x = 0) observed" "binary predicted" "length observed < 2 ^ 53"
  shows "\<exists>r. calculate_accuracy observed predicted = Some r \<and>
    recall r = NaN \<and> positive_predictive_value r = NaN \<and>
    precision r = (if count_label predicted 1 = 0 then NaN else Fin 0) \<and>
    in_unit (specificity r)"
proof -
  have bo: "binary observed"
    using assms(3) by (induct observed) (simp_all add: binary_def)
  note an = all_negative_counts [OF assms(1,3)]
  from calc_counts [OF assms(1) bo assms(4)] obtain r where r:
    "calculate_accuracy observed predicted = Some r"
    "precision r = true_divide 0 (count_label predicted 1)"
    "recall r = true_divide 0 0"
    "specificity r = true_divide (count_label predicted 0)
                       (count_label predicted 0 + count_label predicted 1)"
    "positive_predictive_value r = recall r"
    unfolding an by auto
  have nan: "true_divide 0 0 = NaN" by (simp add: true_divide_def f64_of_int_def)
  have prec: "precision r = (if count_label predicted 1 = 0 then NaN else Fin 0)"
  proof (cases "count_label predicted 1 = 0")
    case True
    then show ?thesis by (simp add: r(2) nan)
  next
    case False
    then have "1 \<le> count_label predicted 1"
      using count_label_nonneg [of predicted 1] by linarith
    then show ?thesis using False by (simp add: r(2) true_divide_zero_num)
  qed
  have len: "count_label predicted 0 + count_label predicted 1 = int (length observed)"
    using count_label_binary [OF assms(4)] assms(1) by simp
  have "in_unit (specificity r)"
    unfolding r(4) len
    by (rule true_divide_unit(4))
       (use assms(2) length_bound [OF assms(5)] count_label_nonneg [of predicted 0]
          count_label_nonneg [of predicted 1] len in simp_all)
  then show ?thesis using r(1,3,5) nan prec by simp
qed

theorem all_negative_observed_witness:
  "length [0,0,0,0::int] = length [0,0,1,0::int] \<and> [0,0,0,0::int] \<noteq> [] \<and>
   list_all (\<lambda>x. x = 0) [0,0,0,0::int] \<and> binary [0,0,1,0] \<and>
   length [0,0,0,0::int] < 2 ^ 53 \<and>
   (\<exists>r. calculate_accuracy [0,0,0,0] [0,0,1,0] = Some r \<and>
     recall r = NaN \<and> positive_predictive_value r = NaN \<and>
     precision r = Fin 0 \<and> in_unit (specificity r))"
  using all_negative_observed [of "[0,0,0,0]" "[0,0,1,0]"]
  by (simp add: binary_def count_label_def)

theorem all_negative_precision_counterexample:
  "count_label [0,0,0,0] 1 = 0 \<and> binary [0,0,1,0] \<and>
   map_option precision (calculate_accuracy [0,0,0,0] [0,0,1,0]) = Some (Fin 0) \<and>
   map_option precision (calculate_accuracy [0,0,0,0] [0,0,1,0]) \<noteq> Some NaN"
proof -
  have h: "length [0,0,0,0::int] = length [0,0,1,0::int]" "binary [0,0,0,0]" "binary [0,0,1,0]"
    by (simp_all add: binary_def)
  have c: "TP [0,0,0,0] [0,0,1,0] = 0" "FP [0,0,0,0] [0,0,1,0] = 1"
    by (simp_all add: TP_def FP_def pair_count_def)
  from calc_counts [OF h] obtain r where r:
    "calculate_accuracy [0,0,0,0] [0,0,1,0] = Some r" "precision r = true_divide 0 1"
    unfolding c by auto
  have "true_divide 0 1 = Fin 0" by (rule true_divide_zero_num) simp
  then show ?thesis using r h by (simp add: count_label_def)
qed


section \<open>The defining equations\<close>

text \<open>
  Claim C4. For every pair of equal-length binary sequences (of fewer than \<open>2\<^sup>5\<^sup>3\<close>
  labels), with TP, FP, TN, FN the pair counts and N their sum, the returned metrics
  satisfy, whenever the respective denominator is nonzero: accuracy = (TP+TN)/N,
  precision = TP/(TP+FP), recall = TP/(TP+FN), specificity = TN/(TN+FP),
  F1 = 2 * precision * recall / (precision + recall) in each order in which float64
  can evaluate that product, positive_likelihood = recall / (1 - specificity),
  negative_likelihood = (1 - recall) / specificity, false_positive_rate =
  1 - specificity and false_negative_rate = 1 - recall, every operation being the
  float64 one.
\<close>

theorem metrics_defining_equations:
  assumes "length observed = length predicted" "binary observed" "binary predicted"
    "length observed < 2 ^ 53"
  shows "\<exists>r. calculate_accuracy observed predicted = Some r \<and>
    (TP observed predicted + FP observed predicted
       + TN observed predicted + FN observed predicted \<noteq> 0 \<longrightarrow>
     accuracy r = true_divide (TP observed predicted + TN observed predicted)
        (TP observed predicted + FP observed predicted
          + TN observed predicted + FN observed predicted)) \<and>
    (TP observed predicted + FP observed predicted \<noteq> 0 \<longrightarrow>
     precision r = true_divide (TP observed predicted)
        (TP observed predicted + FP observed predicted)) \<and>
    (TP observed predicted + FN observed predicted \<noteq> 0 \<longrightarrow>
     recall r = true_divide (TP observed predicted)
        (TP observed predicted + FN observed predicted)) \<and>
    (TN observed predicted + FP observed predicted \<noteq> 0 \<longrightarrow>
     specificity r = true_divide (TN observed predicted)
        (TN observed predicted + FP observed predicted)) \<and>
    (fadd (precision r) (recall r) \<noteq> Fin 0 \<longrightarrow>
     f1 r = fmul (Fin 2) (fdiv (fmul (precision r) (recall r))
                               (fadd (precision r) (recall r))) \<and>
     f1 r = fdiv (fmul (fmul (Fin 2) (precision r)) (recall r))
                 (fadd (precision r) (recall r)) \<and>
     f1 r = fdiv (fmul (Fin 2) (fmul (precision r) (recall r)))
                 (fadd (precision r) (recall r))) \<and>
    (fsub (Fin 1) (specificity r) \<noteq> Fin 0 \<longrightarrow>
     positive_likelihood r = fdiv (recall r) (fsub (Fin 1) (specificity r))) \<and>
    (specificity r \<noteq> Fin 0 \<longrightarrow>
     negative_likelihood r = fdiv (fsub (Fin 1) (recall r)) (specificity r)) \<and>
    false_positive_rate r = fsub (Fin 1) (specificity r) \<and>
    false_negative_rate r = fsub (Fin 1) (recall r)"
proof -
  define tp fp tn fn where "tp = TP observed predicted" and "fp = FP observed predicted"
    and "tn = TN observed predicted" and "fn = FN observed predicted"
  from calc_counts [OF assms(1-3), folded tp_def fp_def tn_def fn_def] obtain r where r:
    "calculate_accuracy observed predicted = Some r"
    "accuracy r = true_divide (tp + tn) (tp + fp + tn + fn)"
    "precision r = true_divide tp (tp + fp)"
    "recall r = true_divide tp (tp + fn)"
    "specificity r = true_divide tn (tn + fp)"
    "f1 r = fmul (Fin 2) (fdiv (fmul (precision r) (recall r)) (fadd (precision r) (recall r)))"
    "positive_likelihood r = fdiv (recall r) (fsub (Fin 1) (specificity r))"
    "negative_likelihood r = fdiv (fsub (Fin 1) (recall r)) (specificity r)"
    "false_positive_rate r = fsub (Fin 1) (specificity r)"
    "false_negative_rate r = fsub (Fin 1) (recall r)"
    by blast
  have nn: "0 \<le> tp" "0 \<le> fp" "0 \<le> tn" "0 \<le> fn"
    unfolding tp_def fp_def tn_def fn_def by (rule counts_nonneg)+
  have len: "int (length observed) = tp + fp + tn + fn"
    unfolding tp_def fp_def tn_def fn_def by (rule length_counts [OF assms(1-3)])
  have N: "tp + fp + tn + fn \<le> 2 ^ 53"
    using length_bound [OF assms(4)] by (simp add: len [symmetric])
  have alt: "f1 r = fdiv (fmul (fmul (Fin 2) (precision r)) (recall r))
                         (fadd (precision r) (recall r)) \<and>
             f1 r = fdiv (fmul (Fin 2) (fmul (precision r) (recall r)))
                         (fadd (precision r) (recall r))"
  proof (cases "tp + fp = 0 \<or> tp + fn = 0")
    case True
    then have "tp = 0 \<and> (fp = 0 \<or> fn = 0)" using nn by linarith
    then have "precision r = NaN \<or> recall r = NaN" by (auto simp add: r(3,4))
    then show ?thesis unfolding r(6) by auto
  next
    case False
    then have d: "tp + fp \<noteq> 0" "tp + fn \<noteq> 0" by simp_all
    have p: "precision r = Fin (round64 (of_int tp / of_int (tp + fp)))"
      unfolding r(3) by (rule true_divide_unit(1)) (use nn N d in simp_all)
    have q: "recall r = Fin (round64 (of_int tp / of_int (tp + fn)))"
      unfolding r(4) by (rule true_divide_unit(1)) (use nn N d in simp_all)
    have x: "0 \<le> (of_int tp :: rat) / of_int (tp + fp)"
      "(of_int tp :: rat) / of_int (tp + fp) \<le> 1"
      and y: "0 \<le> (of_int tp :: rat) / of_int (tp + fn)"
      "(of_int tp :: rat) / of_int (tp + fn) \<le> 1"
      using nn d by simp_all
    have xl: "(of_int tp :: rat) / of_int (tp + fp) = 0
        \<or> 2 powi (- 53) \<le> (of_int tp :: rat) / of_int (tp + fp)"
      by (rule fraction_low) (use nn N d in simp_all)
    have yl: "(of_int tp :: rat) / of_int (tp + fn) = 0
        \<or> 2 powi (- 53) \<le> (of_int tp :: rat) / of_int (tp + fn)"
      by (rule fraction_low) (use nn N d in simp_all)
    show ?thesis
      unfolding r(6) p q using f1_association [OF x xl y yl, symmetric] by blast
  qed
  show ?thesis
    using r alt unfolding tp_def fp_def tn_def fn_def by blast
qed

theorem metrics_defining_equations_witness:
  "\<exists>r. calculate_accuracy [1,1,0,0,1] [1,0,0,1,1] = Some r \<and>
     accuracy r = true_divide 3 5 \<and> precision r = true_divide 2 3 \<and>
     recall r = true_divide 2 3 \<and> specificity r = true_divide 1 2 \<and>
     f1 r = fmul (Fin 2) (fdiv (fmul (precision r) (recall r))
                               (fadd (precision r) (recall r))) \<and>
     f1 r = fdiv (fmul (fmul (Fin 2) (precision r)) (recall r))
                 (fadd (precision r) (recall r)) \<and>
     f1 r = fdiv (fmul (Fin 2) (fmul (precision r) (recall r)))
                 (fadd (precision r) (recall r)) \<and>
     positive_likelihood r = fdiv (recall r) (fsub (Fin 1) (specificity r)) \<and>
     negative_likelihood r = fdiv (fsub (Fin 1) (recall r)) (specificity r) \<and>
     false_positive_rate r = fsub (Fin 1) (specificity r) \<and>
     false_negative_rate r = fsub (Fin 1) (recall r)"
proof -
  have h: "length [1,1,0,0,1::int] = length [1,0,0,1,1::int]"
    "binary [1,1,0,0,1]" "binary [1,0,0,1,1]" "length [1,1,0,0,1::int] < 2 ^ 53"
    by (simp_all add: binary_def)
  have c: "TP [1,1,0,0,1] [1,0,0,1,1] = 2" "FP [1,1,0,0,1] [1,0,0,1,1] = 1"
    "FN [1,1,0,0,1] [1,0,0,1,1] = 1" "TN [1,1,0,0,1] [1,0,0,1,1] = 1"
    by (simp_all add: TP_def FP_def FN_def TN_def pair_count_def)
  have nz: "fadd (true_divide 2 3) (true_divide 2 3) \<noteq> Fin 0"
    "fsub (Fin 1) (true_divide 1 2) \<noteq> Fin 0" "true_divide 1 2 \<noteq> Fin 0"
    by code_simp+
  from metrics_defining_equations [OF h] obtain r where r:
    "calculate_accuracy [1,1,0,0,1] [1,0,0,1,1] = Some r"
    "accuracy r = true_divide 3 5" "precision r = true_divide 2 3"
    "recall r = true_divide 2 3" "specificity r = true_divide 1 2"
    "fadd (precision r) (recall r) \<noteq> Fin 0 \<longrightarrow>
     f1 r = fmul (Fin 2) (fdiv (fmul (precision r) (recall r))
                               (fadd (precision r) (recall r))) \<and>
     f1 r = fdiv (fmul (fmul (Fin 2) (precision r)) (recall r))
                 (fadd (precision r) (recall r)) \<and>
     f1 r = fdiv (fmul (Fin 2) (fmul (precision r) (recall r)))
                 (fadd (precision r) (recall r))"
    "fsub (Fin 1) (specificity r) \<noteq> Fin 0 \<longrightarrow>
     positive_likelihood r = fdiv (recall r) (fsub (Fin 1) (specificity r))"
    "specificity r \<noteq> Fin 0 \<longrightarrow>
     negative_likelihood r = fdiv (fsub (Fin 1) (recall r)) (specificity r)"
    "false_positive_rate r = fsub (Fin 1) (specificity r)"
    "false_negative_rate r = fsub (Fin 1) (recall r)"
    unfolding c by auto
  from r(6-8) nz have
    "f1 r = fmul (Fin 2) (fdiv (fmul (precision r) (recall r))
                               (fadd (precision r) (recall r)))"
    "f1 r = fdiv (fmul (fmul (Fin 2) (precision r)) (recall r))
                 (fadd (precision r) (recall r))"
    "f1 r = fdiv (fmul (Fin 2) (fmul (precision r) (recall r)))
                 (fadd (precision r) (recall r))"
    "positive_likelihood r = fdiv (recall r) (fsub (Fin 1) (specificity r))"
    "negative_likelihood r = fdiv (fsub (Fin 1) (recall r)) (specificity r)"
    unfolding r(3-5) by blast+
  with r(1-5,9,10) show ?thesis by blast
qed


section \<open>Range of the metrics\<close>

text \<open>
  Claim C5. For every pair of equal-length non-empty binary sequences (of fewer than
  \<open>2\<^sup>5\<^sup>3\<close> labels) the returned accuracy lies in [0,1], and each of precision, recall,
  specificity and F1 lies in [0,1] whenever its denominator is nonzero.
\<close>

theorem metrics_in_unit_interval:
  assumes "length observed = length predicted" "binary observed" "binary predicted"
    "observed \<noteq> []" "length observed < 2 ^ 53"
  shows "\<exists>r. calculate_accuracy observed predicted = Some r \<and>
    in_unit (accuracy r) \<and>
    (TP observed predicted + FP observed predicted \<noteq> 0 \<longrightarrow> in_unit (precision r)) \<and>
    (TP observed predicted + FN observed predicted \<noteq> 0 \<longrightarrow> in_unit (recall r)) \<and>
    (TN observed predicted + FP observed predicted \<noteq> 0 \<longrightarrow> in_unit (specificity r)) \<and>
    (TP observed predicted + FP observed predicted \<noteq> 0 \<and>
     TP observed predicted + FN observed predicted \<noteq> 0 \<and>
     fadd (precision r) (recall r) \<noteq> Fin 0 \<longrightarrow> in_unit (f1 r))"
proof -
  define tp fp tn fn where "tp = TP observed predicted" and "fp = FP observed predicted"
    and "tn = TN observed predicted" and "fn = FN observed predicted"
  from calc_counts [OF assms(1-3), folded tp_def fp_def tn_def fn_def] obtain r where r:
    "calculate_accuracy observed predicted = Some r"
    "accuracy r = true_divide (tp + tn) (tp + fp + tn + fn)"
    "precision r = true_divide tp (tp + fp)"
    "recall r = true_divide tp (tp + fn)"
    "specificity r = true_divide tn (tn + fp)"
    "f1 r = fmul (Fin 2) (fdiv (fmul (precision r) (recall r)) (fadd (precision r) (recall r)))"
    by blast
  have nn: "0 \<le> tp" "0 \<le> fp" "0 \<le> tn" "0 \<le> fn"
    unfolding tp_def fp_def tn_def fn_def by (rule counts_nonneg)+
  have len: "int (length observed) = tp + fp + tn + fn"
    unfolding tp_def fp_def tn_def fn_def by (rule length_counts [OF assms(1-3)])
  have N: "0 < tp + fp + tn + fn" "tp + fp + tn + fn \<le> 2 ^ 53"
    using assms(4) length_bound [OF assms(5)] by (simp_all add: len [symmetric])
  have acc: "in_unit (accuracy r)"
    unfolding r(2) by (rule true_divide_unit(4)) (use nn N in simp_all)
  have prec: "in_unit (precision r)" if "tp + fp \<noteq> 0"
    unfolding r(3) by (rule true_divide_unit(4)) (use nn N that in simp_all)
  have rec: "in_unit (recall r)" if "tp + fn \<noteq> 0"
    unfolding r(4) by (rule true_divide_unit(4)) (use nn N that in simp_all)
  have spec: "in_unit (specificity r)" if "tn + fp \<noteq> 0"
    unfolding r(5) by (rule true_divide_unit(4)) (use nn N that in simp_all)
  have f: "in_unit (f1 r)"
    if d: "tp + fp \<noteq> 0" "tp + fn \<noteq> 0" and s: "fadd (precision r) (recall r) \<noteq> Fin 0"
  proof -
    have p: "precision r = Fin (round64 (of_int tp / of_int (tp + fp)))"
      unfolding r(3) by (rule true_divide_unit(1)) (use nn N d in simp_all)
    have q: "recall r = Fin (round64 (of_int tp / of_int (tp + fn)))"
      unfolding r(4) by (rule true_divide_unit(1)) (use nn N d in simp_all)
    have "0 \<le> (of_int tp :: rat) / of_int (tp + fp)" "(of_int tp :: rat) / of_int (tp + fp) \<le> 1"
      "0 \<le> (of_int tp :: rat) / of_int (tp + fn)" "(of_int tp :: rat) / of_int (tp + fn) \<le> 1"
      using nn d by simp_all
    from f1_in_unit [OF this] s show ?thesis unfolding r(6) p q by simp
  qed
  show ?thesis
    using r(1) acc prec rec spec f unfolding tp_def fp_def tn_def fn_def by blast
qed

theorem metrics_in_unit_interval_witness:
  "\<exists>r. calculate_accuracy [1,1,0,0,1] [1,0,0,1,1] = Some r \<and>
     in_unit (accuracy r) \<and> in_unit (precision r) \<and> in_unit (recall r) \<and>
     in_unit (specificity r) \<and> in_unit (f1 r)"
proof -
  have h: "length [1,1,0,0,1::int] = length [1,0,0,1,1::int]"
    "binary [1,1,0,0,1]" "binary [1,0,0,1,1]" "[1,1,0,0,1::int] \<noteq> []"
    "length [1,1,0,0,1::int] < 2 ^ 53"
    by (simp_all add: binary_def)
  have c: "TP [1,1,0,0,1] [1,0,0,1,1] = 2" "FP [1,1,0,0,1] [1,0,0,1,1] = 1"
    "FN [1,1,0,0,1] [1,0,0,1,1] = 1" "TN [1,1,0,0,1] [1,0,0,1,1] = 1"
    by (simp_all add: TP_def FP_def FN_def TN_def pair_count_def)
  from calc_counts [OF h(1-3)] obtain r' where r':
    "calculate_accuracy [1,1,0,0,1] [1,0,0,1,1] = Some r'"
    "precision r' = true_divide 2 3" "recall r' = true_divide 2 3"
    unfolding c by auto
  have nz: "fadd (true_divide 2 3) (true_divide 2 3) \<noteq> Fin 0" by code_simp
  from metrics_in_unit_interval [OF h] show ?thesis
    unfolding c using r' nz by auto
qed


section \<open>Self-agreement\<close>

text \<open>
  Claim C6. For every non-empty sequence \<open>s\<close> (of fewer than \<open>2\<^sup>5\<^sup>3\<close> labels, the range in
  which NumPy's counts convert to float64 exactly), \<open>calculate_accuracy s s\<close> returns
  accuracy exactly 1.0.
\<close>

theorem self_agreement_accuracy:
  assumes "s \<noteq> []" "length s < 2 ^ 53"
  shows "map_option accuracy (calculate_accuracy s s) = Some (Fin 1)"
proof -
  from calc_fields_TP [of s s] obtain r where r:
    "calculate_accuracy s s = Some r" "accuracy r = np_mean (map2 (=) s s)"
    by auto
  have n: "0 < int (length s)" "int (length s) \<le> 2 ^ 53"
    using assms by (simp_all add: less_imp_le flip: of_nat_less_numeral_power_cancel_iff)
  have "np_mean (map2 (=) s s) = true_divide (int (length s)) (int (length s))"
    by (simp add: np_mean_true_divide sum_self)
  also have "\<dots> = Fin (round64 (of_int (int (length s)) / of_int (int (length s))))"
    by (rule true_divide_pos) (use n in simp_all)
  also have "\<dots> = Fin 1" using n by simp
  finally show ?thesis using r by simp
qed

theorem self_agreement_accuracy_witness:
  "[1,0,1::int] \<noteq> [] \<and> length [1,0,1::int] < 2 ^ 53 \<and>
   map_option accuracy (calculate_accuracy [1,0,1] [1,0,1]) = Some (Fin 1)"
  using self_agreement_accuracy [of "[1,0,1]"] by simp


section \<open>Complemented predictions\<close>

text \<open>
  Claim C7. For every non-empty sequence \<open>s\<close>, \<open>calculate_accuracy\<close> applied to \<open>s\<close> and
  its element-wise complement returns accuracy exactly 0.0.
\<close>

theorem complement_accuracy:
  assumes "s \<noteq> []"
  shows "map_option accuracy (calculate_accuracy s (flip_labels s)) = Some (Fin 0)"
proof -
  from calc_fields_TP [of s "flip_labels s"] obtain r where r:
    "calculate_accuracy s (flip_labels s) = Some r"
    "accuracy r = np_mean (map2 (=) (flip_labels s) s)"
    by auto
  have "1 \<le> int (length s)" using assms by (cases s) simp_all
  then have "true_divide 0 (int (length s)) = Fin 0" by (rule true_divide_zero_num)
  then have "np_mean (map2 (=) (flip_labels s) s) = Fin 0"
    by (simp add: np_mean_true_divide sum_flip)
  then show ?thesis using r by simp
qed

theorem complement_accuracy_witness:
  "[1,0,1::int] \<noteq> [] \<and> flip_labels [1,0,1] = [0,1,0] \<and>
   map_option accuracy (calculate_accuracy [1,0,1] (flip_labels [1,0,1])) = Some (Fin 0)"
  using complement_accuracy [of "[1,0,1]"] by (simp add: flip_labels_def)


section \<open>Observed rates\<close>

text \<open>
  Claim C8. For every pair of equal-length non-empty sequences with a binary observed
  sequence (of fewer than \<open>2\<^sup>5\<^sup>3\<close> labels), the float64 sum
  \<open>observed_positive_rate + observed_negative_rate\<close> of the returned mapping is exactly
  1.0, whatever the two rounded fractions are.
\<close>

theorem observed_rates_sum_to_one:
  assumes "length observed = length predicted" "observed \<noteq> []" "binary observed"
    "length observed < 2 ^ 53"
  shows "\<exists>r. calculate_accuracy observed predicted = Some r \<and>
    fadd (observed_positive_rate r) (observed_negative_rate r) = Fin 1"
proof -
  define n k where "n = int (length observed)" and "k = count_label observed 1"
  from calc_fields [OF assms(1)] obtain r where r:
    "calculate_accuracy observed predicted = Some r"
    "observed_positive_rate r = np_mean (eq_scalar observed 1)"
    "observed_negative_rate r = np_mean (eq_scalar observed 0)"
    by blast
  have n: "0 < n" "n \<le> 2 ^ 53"
    using assms(2,4) unfolding n_def
    by (simp_all add: less_imp_le flip: of_nat_less_numeral_power_cancel_iff)
  have k: "0 \<le> k" "k \<le> n" "count_label observed 0 = n - k"
    using count_label_binary [OF assms(3)] count_label_nonneg [of observed 1]
      count_label_le [of observed 1]
    by (simp_all add: n_def k_def)
  define x :: rat where "x = of_int k / of_int n"
  have x: "0 \<le> x" "x \<le> 1" using n k by (simp_all add: x_def)
  have "observed_positive_rate r = true_divide k n"
    by (simp add: r(2) np_mean_true_divide sum_eq_scalar n_def k_def)
  also have "\<dots> = Fin (round64 x)"
    unfolding x_def by (rule true_divide_pos) (use n k in simp_all)
  finally have p: "observed_positive_rate r = Fin (round64 x)" .
  have "observed_negative_rate r = true_divide (n - k) n"
    by (simp add: r(3) np_mean_true_divide sum_eq_scalar k(3)) (simp add: n_def)
  also have "\<dots> = Fin (round64 (of_int (n - k) / of_int n))"
    by (rule true_divide_pos) (use n k in simp_all)
  also have "of_int (n - k) / of_int n = 1 - x"
    using n by (simp add: x_def diff_divide_distrib)
  finally have q: "observed_negative_rate r = Fin (round64 (1 - x))" .
  have u: "0 \<le> round64 x" "round64 x \<le> 1" "0 \<le> round64 (1 - x)" "round64 (1 - x) \<le> 1"
    using round64_unit [of x] round64_unit [of "1 - x"] x by simp_all
  have "rnd (round64 x + round64 (1 - x)) = Fin (round64 (round64 x + round64 (1 - x)))"
    by (rule rnd_fin) (use u in simp_all)
  then have "fadd (observed_positive_rate r) (observed_negative_rate r) = Fin 1"
    using complementary_sum [OF x] by (simp add: p q)
  then show ?thesis using r(1) by blast
qed

theorem observed_rates_sum_to_one_witness:
  "length [1,0,0::int] = length [0,1,0::int] \<and> [1,0,0::int] \<noteq> [] \<and> binary [1,0,0] \<and>
   length [1,0,0::int] < 2 ^ 53 \<and>
   (\<exists>r. calculate_accuracy [1,0,0] [0,1,0] = Some r \<and>
        fadd (observed_positive_rate r) (observed_negative_rate r) = Fin 1)"
  using observed_rates_sum_to_one [of "[1,0,0]" "[0,1,0]"] by (simp add: binary_def)


section \<open>Positive predictive value\<close>

text \<open>
  Claim C9. For every pair of equal-length sequences the returned
  \<open>positive_predictive_value\<close> is the same scalar as \<open>recall\<close>: the true-positive count
  divided by the observed-positive count. It is not the proportion of predicted
  positives that are correct: for observed = [1,0] and predicted = [1,1] the returned
  value is 1.0 although only one of the two predicted positives is correct.
\<close>

theorem ppv_equals_recall:
  assumes "length observed = length predicted"
  shows "(\<exists>r. calculate_accuracy observed predicted = Some r \<and>
            positive_predictive_value r = recall r \<and>
            positive_predictive_value r
              = true_divide (TP observed predicted) (count_label observed 1)) \<and>
         map_option positive_predictive_value (calculate_accuracy [1,0] [1,1]) = Some (Fin 1) \<and>
         true_divide (TP [1,0] [1,1]) (count_label [1,1] 1) = Fin (1 / 2)"
proof -
  have general: "\<exists>r. calculate_accuracy xs ys = Some r \<and>
            positive_predictive_value r = recall r \<and>
            positive_predictive_value r = true_divide (TP xs ys) (count_label xs 1)"
    if "length xs = length ys" for xs ys
    using calc_fields_TP [OF that] by auto
  have c: "TP [1,0] [1,1] = 1" "count_label [1,0] 1 = 1" "count_label [1,1] 1 = 2"
    by (simp_all add: TP_def pair_count_def count_label_def)
  have v: "true_divide 1 1 = Fin 1" "true_divide 1 2 = Fin (1 / 2)" by code_simp+
  from general [of "[1,0]" "[1,1]"]
  have "map_option positive_predictive_value (calculate_accuracy [1,0] [1,1]) = Some (Fin 1)"
    unfolding c v by auto
  then show ?thesis using general [OF assms] c v by simp
qed

theorem ppv_equals_recall_witness:
  "length [1,1,0::int] = length [1,0,1::int] \<and>
   (\<exists>r. calculate_accuracy [1,1,0] [1,0,1] = Some r \<and>
        positive_predictive_value r = recall r \<and>
        positive_predictive_value r = true_divide (TP [1,1,0] [1,0,1]) (count_label [1,1,0] 1))"
  using ppv_equals_recall [of "[1,1,0]" "[1,0,1]"] by simp


section \<open>Negative predictive value\<close>

text \<open>
  Claim C10. For every pair of equal-length sequences the returned
  \<open>negative_predictive_value\<close> is the true-negative count divided by the
  observed-positive count, not by the predicted-negative count. For observed = [1,0,0]
  and predicted = [1,0,0] it is 2.0, strictly greater than 1, while the true-negative
  count divided by the predicted-negative count is 1.0.
\<close>

theorem npv_over_observed_positives:
  assumes "length observed = length predicted"
  shows "(\<exists>r. calculate_accuracy observed predicted = Some r \<and>
            negative_predictive_value r
              = true_divide (TN observed predicted) (count_label observed 1)) \<and>
         map_option negative_predictive_value (calculate_accuracy [1,0,0] [1,0,0]) = Some (Fin 2) \<and>
         true_divide (TN [1,0,0] [1,0,0]) (count_label [1,0,0] 0) = Fin 1"
proof -
  have general: "\<exists>r. calculate_accuracy xs ys = Some r \<and>
            negative_predictive_value r = true_divide (TN xs ys) (count_label xs 1)"
    if "length xs = length ys" for xs ys
    using calc_fields_TP [OF that] by auto
  have c: "TN [1,0,0] [1,0,0] = 2" "count_label [1,0,0] 1 = 1" "count_label [1,0,0] 0 = 2"
    by (simp_all add: TN_def pair_count_def count_label_def)
  have v: "true_divide 2 1 = Fin 2" "true_divide 2 2 = Fin 1" by code_simp+
  from general [of "[1,0,0]" "[1,0,0]"]
  have "map_option negative_predictive_value (calculate_accuracy [1,0,0] [1,0,0]) = Some (Fin 2)"
    unfolding c v by auto
  then show ?thesis using general [OF assms] c v by simp
qed

theorem npv_over_observed_positives_witness:
  "length [1,0,0,0::int] = length [1,0,1,0::int] \<and>
   (\<exists>r. calculate_accuracy [1,0,0,0] [1,0,1,0] = Some r \<and>
        negative_predictive_value r
          = true_divide (TN [1,0,0,0] [1,0,1,0]) (count_label [1,0,0,0] 1))"
  using npv_over_observed_positives [of "[1,0,0,0]" "[1,0,1,0]"] by simp

end
